theory Spec2Isabelle
  imports Complex_Main "HOL-Library.Sublist"
begin

section \<open>Python strings\<close>

text \<open>
  A Python \<open>str\<close> is modelled as a \<open>string\<close> whose characters are the code points
  below 256. Python floats are modelled as \<open>real\<close>, Python integers as \<open>int\<close>.
  The functions of this section are the built-in string operations the services call.
\<close>

definition isspace :: "char \<Rightarrow> bool" where
  \<comment> \<open>\<open>str.isspace\<close> on one character; also the class \<open>\s\<close> of \<open>re\<close>.\<close>
  "isspace c = (c \<in> set [CHR 0x09, CHR 0x0A, CHR 0x0B, CHR 0x0C, CHR 0x0D,
                           CHR 0x1C, CHR 0x1D, CHR 0x1E, CHR 0x1F, CHR 0x20,
                           CHR 0x85, CHR 0xA0])"

definition strip :: "string \<Rightarrow> string" where
  \<comment> \<open>\<open>s.strip()\<close>\<close>
  "strip s = rev (dropWhile isspace (rev (dropWhile isspace s)))"

definition lower_char :: "char \<Rightarrow> char" where
  "lower_char c =
     (let n = (of_char c :: nat)
      in if (65 \<le> n \<and> n \<le> 90) \<or> (192 \<le> n \<and> n \<le> 222 \<and> n \<noteq> 215)
         then char_of (n + 32) else c)"

definition lower :: "string \<Rightarrow> string" where
  \<comment> \<open>\<open>s.lower()\<close>\<close>
  "lower s = map lower_char s"

fun str_in :: "string \<Rightarrow> string \<Rightarrow> bool" where
  \<comment> \<open>\<open>sub in s\<close>\<close>
  "str_in sub [] = (sub = [])"
| "str_in sub (c # cs) = (prefix sub (c # cs) \<or> str_in sub cs)"

fun split_acc :: "string \<Rightarrow> string \<Rightarrow> string list" where
  "split_acc cur [] = (if cur = [] then [] else [cur])"
| "split_acc cur (c # cs) =
     (if isspace c then (if cur = [] then split_acc [] cs else cur # split_acc [] cs)
      else split_acc (cur @ [c]) cs)"

definition split :: "string \<Rightarrow> string list" where
  \<comment> \<open>\<open>s.split()\<close>: the maximal runs of non-whitespace characters\<close>
  "split s = split_acc [] s"

definition digit :: "nat \<Rightarrow> char" where
  "digit d = ''0123456789'' ! d"

fun str_nat :: "nat \<Rightarrow> string" where
  "str_nat n =
     (if n < 10 then [digit n]
      else str_nat (n div 10) @ [digit (n mod 10)])"

declare str_nat.simps [simp del]

definition str_int :: "int \<Rightarrow> string" where
  \<comment> \<open>\<open>str(i)\<close>, also what an f-string writes for an integer\<close>
  "str_int i = (if i < 0 then CHR ''-'' # str_nat (nat (- i)) else str_nat (nat i))"

fun str_replace :: "string \<Rightarrow> string \<Rightarrow> string \<Rightarrow> string" where
  \<comment> \<open>\<open>s.replace(old, new)\<close> for a non-empty \<open>old\<close> (every call site passes a literal)\<close>
  "str_replace old new [] = []"
| "str_replace old new (c # cs) =
     (if old \<noteq> [] \<and> prefix old (c # cs)
      then new @ str_replace old new (drop (length old - 1) cs)
      else c # str_replace old new cs)"

fun join :: "string \<Rightarrow> string list \<Rightarrow> string" where
  \<comment> \<open>\<open>sep.join(parts)\<close>\<close>
  "join sep [] = []"
| "join sep [p] = p"
| "join sep (p # q # ps) = p @ sep @ join sep (q # ps)"

definition slice_from :: "int \<Rightarrow> 'a list \<Rightarrow> 'a list" where
  \<comment> \<open>\<open>xs[i:]\<close>, a negative \<open>i\<close> counting from the end\<close>
  "slice_from i xs =
     (if i < 0 then drop (nat (int (length xs) + i)) xs else drop (nat i) xs)"

definition slice_to :: "int \<Rightarrow> 'a list \<Rightarrow> 'a list" where
  \<comment> \<open>\<open>xs[:i]\<close>, a negative \<open>i\<close> counting from the end\<close>
  "slice_to i xs =
     (if i < 0 then take (nat (int (length xs) + i)) xs else take (nat i) xs)"

lemma length_dropWhile_less_Suc [termination_simp]:
  "length (dropWhile P xs) < Suc (length xs)"
  by (simp add: le_imp_less_Suc length_dropWhile_le)

lemma length_dropWhile2_less_Suc [termination_simp]:
  "length (dropWhile P (dropWhile Q xs)) < Suc (length xs)"
proof -
  have "length (dropWhile P (dropWhile Q xs)) \<le> length (dropWhile Q xs)"
    by (rule length_dropWhile_le)
  also have "\<dots> \<le> length xs" by (rule length_dropWhile_le)
  finally show ?thesis by simp
qed

section \<open>Errors\<close>

datatype error =
    RuntimeError string
  | IndexError
  | ExternalError string  \<comment> \<open>any exception raised by a library or by the file system\<close>

section \<open>Embedding service (\<open>embedding_service.py\<close>)\<close>

type_synonym embedding = "real list"

text \<open>
  The sentence-transformer model and the tiktoken encoding are libraries: they are fields
  of the service, \<open>None\<close> until \<open>initialize\<close> has loaded them, and a call to either may
  raise.
\<close>

record embedding_service =
  model :: "(string list \<Rightarrow> error + embedding list) option"
  encoding :: "(string \<Rightarrow> error + nat list) option"
  es_is_ready :: bool
  max_chunk_size :: int
  chunk_overlap :: int

subsection \<open>\<open>_clean_text\<close>\<close>

fun collapse_ws :: "string \<Rightarrow> string" where
  \<comment> \<open>\<open>re.sub(r'\s+', ' ', text)\<close>\<close>
  "collapse_ws [] = []"
| "collapse_ws (c # cs) =
     (if isspace c then CHR '' '' # collapse_ws (dropWhile isspace cs)
      else c # collapse_ws cs)"

definition is_hash :: "char \<Rightarrow> bool" where
  "is_hash c = (c = CHR ''#'')"

fun sub_headers :: "string \<Rightarrow> string" where
  \<comment> \<open>\<open>re.sub(r'#{1,6}\s+', '', text)\<close>: a match starts at a \<open>#\<close> followed by at most
      five more and then by whitespace; with more than six the engine finds no match here
      and moves one character on.\<close>
  "sub_headers [] = []"
| "sub_headers (c # cs) =
     (if is_hash c \<and> length (takeWhile is_hash cs) \<le> 5
         \<and> dropWhile isspace (dropWhile is_hash cs) \<noteq> dropWhile is_hash cs
      then sub_headers (dropWhile isspace (dropWhile is_hash cs))
      else c # sub_headers cs)"

fun find_close :: "string \<Rightarrow> string \<Rightarrow> (string \<times> string) option" where
  \<comment> \<open>The lazy group \<open>(.*?)\<close> followed by the closing delimiter \<open>d\<close>: the text up to the
      first occurrence of \<open>d\<close>, which no newline may precede, and the text after it.\<close>
  "find_close d [] = (if d = [] then Some ([], []) else None)"
| "find_close d (c # cs) =
     (if prefix d (c # cs) then Some ([], drop (length d) (c # cs))
      else if c = CHR 0x0A then None
      else (case find_close d cs of
              None \<Rightarrow> None
            | Some (inner, rest) \<Rightarrow> Some (c # inner, rest)))"

lemma find_close_length:
  "find_close d s = Some (inner, rest) \<Longrightarrow> length rest \<le> length s"
proof (induction s arbitrary: inner)
  case Nil
  then show ?case by (simp split: if_splits)
next
  case (Cons c cs)
  then show ?case
    by (fastforce split: if_splits option.splits)
qed

function sub_delim :: "string \<Rightarrow> string \<Rightarrow> string" where
  \<comment> \<open>\<open>re.sub(d + r'(.*?)' + d, r'\1', text)\<close> for a literal non-empty delimiter \<open>d\<close>\<close>
  "sub_delim d [] = []"
| "sub_delim d (c # cs) =
     (if d \<noteq> [] \<and> prefix d (c # cs)
      then (case find_close d (drop (length d - 1) cs) of
              Some (inner, rest) \<Rightarrow> inner @ sub_delim d rest
            | None \<Rightarrow> c # sub_delim d cs)
      else c # sub_delim d cs)"
  by pat_completeness auto
termination
  by (relation "measure (\<lambda>(d, s). length s)")
     (auto simp: le_imp_less_Suc dest!: find_close_length)

definition not_rbracket :: "char \<Rightarrow> bool" where
  "not_rbracket c = (c \<noteq> CHR '']'')"

definition not_rparen :: "char \<Rightarrow> bool" where
  "not_rparen c = (c \<noteq> CHR '')'')"

definition match_link :: "string \<Rightarrow> (string \<times> string) option" where
  \<comment> \<open>\<open>\[([^\]]+)\]\([^)]+\)\<close> matched at a \<open>[\<close>, given the text after that \<open>[\<close>: the
      link text and the text after the match.\<close>
  "match_link cs =
     (let txt = takeWhile not_rbracket cs;
          r1 = dropWhile not_rbracket cs
      in if txt \<noteq> [] \<and> prefix '']('' r1
         then (let r2 = drop 2 r1;
                   url = takeWhile not_rparen r2;
                   r3 = dropWhile not_rparen r2
               in if url \<noteq> [] \<and> r3 \<noteq> [] then Some (txt, tl r3) else None)
         else None)"

lemma match_link_length:
  "match_link cs = Some (txt, rest) \<Longrightarrow> length rest \<le> length cs"
proof -
  assume m: "match_link cs = Some (txt, rest)"
  let ?r1 = "dropWhile not_rbracket cs"
  let ?r3 = "dropWhile not_rparen (drop 2 ?r1)"
  from m have "rest = tl ?r3"
    by (auto simp: match_link_def Let_def split: if_splits)
  moreover have "length ?r3 \<le> length (drop 2 ?r1)" by (rule length_dropWhile_le)
  moreover have "length ?r1 \<le> length cs" by (rule length_dropWhile_le)
  ultimately show ?thesis by simp
qed

function sub_links :: "string \<Rightarrow> string" where
  \<comment> \<open>\<open>re.sub(r'\[([^\]]+)\]\([^)]+\)', r'\1', text)\<close>\<close>
  "sub_links [] = []"
| "sub_links (c # cs) =
     (if c = CHR ''[''
      then (case match_link cs of
              Some (txt, rest) \<Rightarrow> txt @ sub_links rest
            | None \<Rightarrow> c # sub_links cs)
      else c # sub_links cs)"
  by pat_completeness auto
termination
  by (relation "measure length") (auto simp: le_imp_less_Suc dest: match_link_length)

definition clean_text :: "string \<Rightarrow> string" where
  \<comment> \<open>\<open>_clean_text\<close>\<close>
  "clean_text text =
     (if text = [] then []
      else
        (let text = collapse_ws text;
             text = str_replace ''&nbsp;'' '' '' text;
             text = str_replace ''&amp;'' ''&'' text;
             text = str_replace ''&lt;'' ''<'' text;
             text = str_replace ''&gt;'' ''>'' text;
             text = str_replace ''&quot;'' [CHR 0x22] text;
             text = sub_headers text;
             text = sub_delim ''**'' text;
             text = sub_delim ''*'' text;
             text = sub_delim ''`'' text;
             text = sub_links text
         in strip text))"

subsection \<open>\<open>chunk_text\<close>\<close>

definition is_punct :: "char \<Rightarrow> bool" where
  "is_punct c = (c \<in> set ''.!?'')"

fun re_split_acc :: "string \<Rightarrow> string \<Rightarrow> string list" where
  "re_split_acc cur [] = [cur]"
| "re_split_acc cur (c # cs) =
     (if is_punct c then cur # re_split_acc [] (dropWhile is_punct cs)
      else re_split_acc (cur @ [c]) cs)"

definition re_split_punct :: "string \<Rightarrow> string list" where
  \<comment> \<open>\<open>re.split(r'[.!?]+', text)\<close>\<close>
  "re_split_punct text = re_split_acc [] text"

fun chunk_loop ::
  "int \<Rightarrow> int \<Rightarrow> string list \<Rightarrow> string list \<Rightarrow> string \<Rightarrow> string list \<times> string" where
  \<comment> \<open>The \<open>for sentence in sentences\<close> loop: the state is \<open>(chunks, current_chunk)\<close>.\<close>
  "chunk_loop max_size overlap [] chunks current_chunk = (chunks, current_chunk)"
| "chunk_loop max_size overlap (s # sentences) chunks current_chunk =
     (let sentence = strip s
      in if sentence = [] then chunk_loop max_size overlap sentences chunks current_chunk
         else if int (length current_chunk) + int (length sentence) + 1 > max_size
                 \<and> current_chunk \<noteq> []
         then (let overlap_text =
                     (if int (length current_chunk) > overlap
                      then slice_from (- overlap) current_chunk else [])
               in chunk_loop max_size overlap sentences
                    (chunks @ [strip current_chunk]) (overlap_text @ '' '' @ sentence))
         else chunk_loop max_size overlap sentences chunks
                (if current_chunk \<noteq> [] then current_chunk @ '' '' @ sentence
                 else sentence))"

definition chunk_text :: "embedding_service \<Rightarrow> string \<Rightarrow> int option \<Rightarrow> string list" where
  "chunk_text es text max_size =
     (let max_size = (case max_size of None \<Rightarrow> max_chunk_size es | Some m \<Rightarrow> m);
          text = clean_text text;
          sentences = re_split_punct text;
          (chunks, current_chunk) =
             chunk_loop max_size (chunk_overlap es) sentences [] []
      in if strip current_chunk \<noteq> [] then chunks @ [strip current_chunk] else chunks)"

subsection \<open>\<open>get_token_count\<close>\<close>

definition get_token_count :: "embedding_service \<Rightarrow> string \<Rightarrow> error + int" where
  "get_token_count es text =
     (case encoding es of
        None \<Rightarrow> Inr (int (length (split text)))
      | Some encode \<Rightarrow>
          (case encode text of
             Inl e \<Rightarrow> Inl e
           | Inr tokens \<Rightarrow> Inr (int (length tokens))))"

subsection \<open>\<open>generate_embeddings\<close>, \<open>generate_embedding\<close>\<close>

definition generate_embeddings ::
  "embedding_service \<Rightarrow> string list \<Rightarrow> error + embedding list" where
  "generate_embeddings es texts =
     (if \<not> es_is_ready es then Inl (RuntimeError ''Embedding service not initialized'')
      else if texts = [] then Inr []
      else (case model es of
              None \<Rightarrow> Inl (ExternalError ''NoneType has no attribute encode'')
            | Some encode \<Rightarrow> encode texts))"

definition generate_embedding :: "embedding_service \<Rightarrow> string \<Rightarrow> error + embedding" where
  "generate_embedding es text =
     (case generate_embeddings es [text] of
        Inl e \<Rightarrow> Inl e
      | Inr [] \<Rightarrow> Inl IndexError
      | Inr (v # _) \<Rightarrow> Inr v)"

section \<open>Document processor (\<open>document_processor.py\<close>)\<close>

text \<open>
  What a run reads from outside the program is a parameter of the model: the identifier
  \<open>uuid.uuid4()\<close> draws for chunk \<open>i\<close> of a file, the clock \<open>datetime.now().isoformat()\<close>
  reads for a file's metadata (\<open>None\<close>) and for its chunk \<open>i\<close> (\<open>Some i\<close>), and the two
  regular-expression searches of \<open>_extract_metadata\<close> for the title and for the publish
  date, of which only the matched groups are used.
\<close>

record environment =
  uuid4 :: "string \<Rightarrow> nat \<Rightarrow> string"
  now_isoformat :: "string \<Rightarrow> nat option \<Rightarrow> string"
  search_title :: "string \<Rightarrow> string option"
  search_date :: "string \<Rightarrow> (string \<times> string \<times> string) option"


record doc_metadata =
  md_file_path :: string
  md_file_name :: string
  md_file_size :: int
  md_doc_type :: string
  md_created_at :: string
  md_title :: "string option"
  md_category :: string
  md_publish_date :: "string option"
  md_word_count :: int

record chunk_doc =
  cd_id :: string
  cd_content :: string
  cd_chunk_index :: int
  cd_total_chunks :: int
  cd_source_file :: string
  cd_source_name :: string
  cd_doc_type :: string
  cd_metadata :: doc_metadata
  cd_created_at :: string
  cd_token_count :: int

record document_processor =
  dp_embedding_service :: embedding_service
  dp_is_ready :: bool

definition path_name :: "string \<Rightarrow> string" where
  \<comment> \<open>\<open>file_path.name\<close>: the last component of the path\<close>
  "path_name p = rev (takeWhile (\<lambda>c. c \<noteq> CHR ''/'') (rev p))"

definition determine_doc_type :: "string \<Rightarrow> string" where
  \<comment> \<open>\<open>_determine_doc_type\<close>\<close>
  "determine_doc_type file_path =
     (let path_str = lower file_path
      in if str_in ''blogs'' path_str then ''blog_post''
         else if str_in ''flox'' path_str then ''flox_docs''
         else if str_in ''nix'' path_str then ''nix_docs''
         else if str_in ''processed'' path_str then ''processed_docs''
         else ''general'')"

definition extract_metadata ::
  "environment \<Rightarrow> string \<Rightarrow> string \<Rightarrow> string \<Rightarrow> doc_metadata" where
  \<comment> \<open>\<open>_extract_metadata\<close>\<close>
  "extract_metadata env file_path content doc_type =
     \<lparr> md_file_path = file_path,
       md_file_name = path_name file_path,
       md_file_size = int (length content),
       md_doc_type = doc_type,
       md_created_at = now_isoformat env file_path None,
       md_title = map_option strip (search_title env content),
       md_category =
         (if str_in ''blogs'' file_path then ''blog''
          else if str_in ''flox'' file_path then ''flox_docs''
          else if str_in ''nix'' file_path then ''nix_docs''
          else ''general''),
       md_publish_date =
         (if str_in ''blogs'' file_path
          then map_option (\<lambda>(d, m, y). d @ '' '' @ m @ '' '' @ y)
                 (search_date env (path_name file_path))
          else None),
       md_word_count = int (length (split content)) \<rparr>"

fun chunk_docs_loop ::
  "document_processor \<Rightarrow> environment \<Rightarrow> string \<Rightarrow> string \<Rightarrow> doc_metadata \<Rightarrow> int \<Rightarrow>
   nat \<Rightarrow> string list \<Rightarrow> chunk_doc list \<Rightarrow> error + chunk_doc list" where
  \<comment> \<open>The \<open>for i, chunk in enumerate(chunks)\<close> loop: \<open>i\<close> is the index of the next chunk,
      the last argument is \<open>chunk_docs\<close>.\<close>
  "chunk_docs_loop dp env file_path doc_type metadata len_chunks i [] chunk_docs = Inr chunk_docs"
| "chunk_docs_loop dp env file_path doc_type metadata len_chunks i (chunk # chunks) chunk_docs =
     (if strip chunk = []
      then chunk_docs_loop dp env file_path doc_type metadata len_chunks (Suc i) chunks chunk_docs
      else (case get_token_count (dp_embedding_service dp) chunk of
              Inl e \<Rightarrow> Inl e
            | Inr tokens \<Rightarrow>
                chunk_docs_loop dp env file_path doc_type metadata len_chunks (Suc i) chunks
                  (chunk_docs @
                   [\<lparr> cd_id = uuid4 env file_path i,
                      cd_content = chunk,
                      cd_chunk_index = int i,
                      cd_total_chunks = len_chunks,
                      cd_source_file = file_path,
                      cd_source_name = path_name file_path,
                      cd_doc_type = doc_type,
                      cd_metadata = metadata,
                      cd_created_at = now_isoformat env file_path (Some i),
                      cd_token_count = tokens \<rparr>])))"

definition process_document ::
  "document_processor \<Rightarrow> environment \<Rightarrow> string \<Rightarrow> string \<Rightarrow> string \<Rightarrow>
   error + chunk_doc list" where
  "process_document dp env file_path content doc_type =
     (if \<not> dp_is_ready dp then Inl (RuntimeError ''Document processor not initialized'')
      else
        (let metadata = extract_metadata env file_path content doc_type;
             chunks = chunk_text (dp_embedding_service dp) content None
         in chunk_docs_loop dp env file_path doc_type metadata (int (length chunks))
              0 chunks []))"





section \<open>Vector service (\<open>vector_rag_service.py\<close>)\<close>

text \<open>
  The metadata of a stored chunk has the keys and the value types \<open>load_documents\<close> writes;
  a key may be absent, which is what \<open>metadata.get(key, default)\<close> provides for.
\<close>

record chroma_metadata =
  cm_source_file :: "string option"
  cm_source_name :: "string option"
  cm_doc_type :: "string option"
  cm_chunk_index :: "int option"
  cm_total_chunks :: "int option"
  cm_category :: "string option"
  cm_title :: "string option"
  cm_created_at :: "string option"
  cm_token_count :: "int option"

record query_result =
  documents :: "string list list"
  metadatas :: "chroma_metadata list list"
  distances :: "real list list"

record search_result =
  content :: string
  source :: string
  relevance_score :: real
  doc_type :: string
  category :: string
  title :: string
  chunk_index :: int
  total_chunks :: int
  metadata :: chroma_metadata

text \<open>
  The collection is the ChromaDB index: \<open>collection.query(query_embeddings, n_results,
  where)\<close>, with \<open>where\<close> either \<open>None\<close> or the list of admitted document types. It is
  \<open>None\<close> until \<open>initialize\<close> has opened it. Every function of the service returns, beside
  its value, the calls it made to the embedder and to the index, in order.
\<close>

datatype call =
    Embed string
  | Query "embedding list" int "string list option"

record vector_service =
  vs_embedding_service :: embedding_service
  collection :: "(embedding list \<Rightarrow> int \<Rightarrow> string list option \<Rightarrow> error + query_result) option"
  vs_is_ready :: bool

definition get_or :: "'a option \<Rightarrow> 'a \<Rightarrow> 'a" where
  \<comment> \<open>\<open>d.get(key, default)\<close>, given the lookup of the key\<close>
  "get_or v d = (case v of None \<Rightarrow> d | Some x \<Rightarrow> x)"

definition make_result :: "string \<times> chroma_metadata \<times> real \<Rightarrow> search_result" where
  \<comment> \<open>The body of the loop over the zipped rows of the index's answer.\<close>
  "make_result row =
     (case row of (doc, md, distance) \<Rightarrow>
        (let similarity_score = 1 - distance
         in \<lparr> content = doc,
              source = get_or (cm_source_name md) ''Unknown'',
              relevance_score = similarity_score,
              doc_type = get_or (cm_doc_type md) ''general'',
              category = get_or (cm_category md) ''general'',
              title = get_or (cm_title md) [],
              chunk_index = get_or (cm_chunk_index md) 0,
              total_chunks = get_or (cm_total_chunks md) 1,
              metadata = md \<rparr>))"

definition search_try ::
  "vector_service \<Rightarrow> string \<Rightarrow> int \<Rightarrow> string list option \<Rightarrow>
   (error + search_result list) \<times> call list" where
  \<comment> \<open>The body of the \<open>try\<close> block of \<open>search\<close>.\<close>
  "search_try vs query n_results doc_types =
     (case generate_embedding (vs_embedding_service vs) query of
        Inl e \<Rightarrow> (Inl e, [Embed query])
      | Inr query_embedding \<Rightarrow>
          (let where_clause =
                 (case doc_types of
                    None \<Rightarrow> None
                  | Some ts \<Rightarrow> if ts = [] then None else Some ts)
           in case collection vs of
                None \<Rightarrow> (Inl (ExternalError ''NoneType has no attribute query''), [Embed query])
              | Some query_index \<Rightarrow>
                  (let calls = [Embed query, Query [query_embedding] n_results where_clause]
                   in case query_index [query_embedding] n_results where_clause of
                        Inl e \<Rightarrow> (Inl e, calls)
                      | Inr results \<Rightarrow>
                          (case documents results of
                             [] \<Rightarrow> (Inr [], calls)
                           | docs # _ \<Rightarrow>
                               if docs = [] then (Inr [], calls)
                               else (case (metadatas results, distances results) of
                                       (mds # _, dists # _) \<Rightarrow>
                                          (Inr (map make_result (zip docs (zip mds dists))),
                                           calls)
                                     | _ \<Rightarrow> (Inl IndexError, calls))))))"

definition search ::
  "vector_service \<Rightarrow> string \<Rightarrow> int \<Rightarrow> string list option \<Rightarrow>
   search_result list \<times> call list" where
  "search vs query n_results doc_types =
     (if \<not> vs_is_ready vs then ([], [])
      else if strip query = [] then ([], [])
      else (case search_try vs query n_results doc_types of
              (Inl e, calls) \<Rightarrow> ([], calls)
            | (Inr search_results, calls) \<Rightarrow> (search_results, calls)))"

definition source_key :: "search_result \<Rightarrow> string" where
  \<comment> \<open>\<open>f"{result['source']}_{result.get('chunk_index', 0)}"\<close>\<close>
  "source_key result = source result @ ''_'' @ str_int (chunk_index result)"

fun dedup_loop ::
  "search_result list \<Rightarrow> string set \<Rightarrow> search_result list \<Rightarrow> search_result list" where
  \<comment> \<open>The \<open>for result in all_results\<close> loop: the state is \<open>(seen_sources, unique_results)\<close>.\<close>
  "dedup_loop [] seen_sources unique_results = unique_results"
| "dedup_loop (result # all_results) seen_sources unique_results =
     (if source_key result \<notin> seen_sources
      then dedup_loop all_results (insert (source_key result) seen_sources)
             (unique_results @ [result])
      else dedup_loop all_results seen_sources unique_results)"

definition search_with_context ::
  "vector_service \<Rightarrow> string \<Rightarrow> string \<Rightarrow> int \<Rightarrow> search_result list \<times> call list" where
  "search_with_context vs query context n_results =
     (if \<not> vs_is_ready vs then ([], [])
      else
        (let enhanced_query = strip (query @ '' '' @ context);
             (flox_results, calls1) =
                search vs enhanced_query n_results (Some [''flox_docs'', ''blog_post''])
         in if int (length flox_results) \<ge> n_results then (flox_results, calls1)
            else
              (let (general_results, calls2) =
                      search vs enhanced_query (n_results - int (length flox_results)) None;
                   all_results = flox_results @ general_results;
                   unique_results = dedup_loop all_results {} []
               in (slice_to n_results unique_results, calls1 @ calls2))))"

section \<open>Retriever (\<open>rag_service.py\<close>)\<close>

record rag_service =
  rs_vector_service :: vector_service
  rs_is_ready :: bool

definition flox_keywords :: "string list" where
  "flox_keywords =
     [''flox'', ''manifest'', ''environment'', ''package'', ''service'', ''activate'']"

definition boost :: "bool \<Rightarrow> search_result \<Rightarrow> search_result" where
  \<comment> \<open>The body of the \<open>for result in results\<close> loop of \<open>FloxRAGService.search\<close>.\<close>
  "boost has_flox_context result =
     (let content_lower = lower (content result);
          result = (if doc_type result \<in> set [''flox_docs'', ''blog_post'']
                    then result\<lparr>relevance_score := relevance_score result * 1.5\<rparr>
                    else result);
          result = (if has_flox_context \<and> str_in ''flox'' content_lower
                    then result\<lparr>relevance_score := relevance_score result * 1.3\<rparr>
                    else result)
      in result\<lparr>relevance_score := min 1.0 (relevance_score result)\<rparr>)"

fun insort_desc :: "search_result \<Rightarrow> search_result list \<Rightarrow> search_result list" where
  "insort_desc r [] = [r]"
| "insort_desc r (x # xs) =
     (if relevance_score x > relevance_score r then x # insort_desc r xs else r # x # xs)"

definition sort_desc :: "search_result list \<Rightarrow> search_result list" where
  \<comment> \<open>\<open>results.sort(key=lambda x: x['relevance_score'], reverse=True)\<close>: a stable sort,
      results of equal score keep their order.\<close>
  "sort_desc results = foldr insort_desc results []"

definition rag_search :: "rag_service \<Rightarrow> string \<Rightarrow> search_result list \<times> call list" where
  \<comment> \<open>\<open>FloxRAGService.search\<close>\<close>
  "rag_search rs query =
     (if \<not> rs_is_ready rs then ([], [])
      else
        (let (results, calls) =
                search_with_context (rs_vector_service rs) query
                  ''flox development environment package management'' 5;
             has_flox_context = list_ex (\<lambda>word. str_in word (lower query)) flox_keywords;
             results = map (boost has_flox_context) results
         in (sort_desc results, calls)))"

definition type_label :: "string \<Rightarrow> string" where
  "type_label t =
     (if t = ''flox_knowledge'' then ''FloxAI Knowledge''
      else if t = ''flox_docs'' then ''Flox Documentation''
      else if t = ''best_practices'' then ''Flox Best Practices''
      else if t = ''general'' then ''Documentation''
      else ''Documentation'')"

definition context_part :: "search_result \<Rightarrow> string" where
  \<comment> \<open>\<open>f"[{type_label}] {result['source']}\n{result['content']}"\<close>\<close>
  "context_part result =
     ''['' @ type_label (doc_type result) @ ''] '' @ source result @ [CHR 0x0A]
       @ content result"

definition get_context_for_query ::
  "rag_service \<Rightarrow> string \<Rightarrow> (string \<times> search_result list) \<times> call list" where
  "get_context_for_query rs query =
     (let (results, calls) = rag_search rs query
      in if results = [] then (([], []), calls)
         else
           (let context_parts = map context_part (slice_to 3 results);
                context = join ([CHR 0x0A, CHR 0x0A] @ ''---'' @ [CHR 0x0A, CHR 0x0A])
                            context_parts
            in ((context, results), calls)))"

section \<open>A small loaded service\<close>

text \<open>
  A concrete service on which the theorems below are exercised: an embedder that maps
  every text to the same vector, and an index of four stored chunks that answers a query
  with the first \<open>n_results\<close> admitted rows and rejects a non-positive \<open>n_results\<close>.
\<close>

definition example_es :: embedding_service where
  "example_es =
     \<lparr> model = Some (\<lambda>texts. Inr (map (\<lambda>t. [1, 0]) texts)),
       encoding = None,
       es_is_ready = True,
       max_chunk_size = 500,
       chunk_overlap = 50 \<rparr>"

definition example_md :: "string \<Rightarrow> string \<Rightarrow> int \<Rightarrow> chroma_metadata" where
  "example_md name type i =
     \<lparr> cm_source_file = Some (''docs/'' @ name),
       cm_source_name = Some name,
       cm_doc_type = Some type,
       cm_chunk_index = Some i,
       cm_total_chunks = Some 2,
       cm_category = Some type,
       cm_title = Some [],
       cm_created_at = Some ''2024-01-01T00:00:00'',
       cm_token_count = Some 3 \<rparr>"

definition example_rows :: "(string \<times> chroma_metadata \<times> real) list" where
  "example_rows =
     [(''Flox makes environments'', example_md ''flox_intro.md'' ''flox_docs'' 0, 1/4),
      (''Pasta needs water'', example_md ''cooking.md'' ''general'' 0, 1/2),
      (''Nix builds packages'', example_md ''nix.md'' ''nix_docs'' 1, 3/4),
      (''Unrelated text'', example_md ''other.md'' ''flox_docs'' 1, 3/2)]"

definition example_index ::
  "embedding list \<Rightarrow> int \<Rightarrow> string list option \<Rightarrow> error + query_result" where
  "example_index query_embeddings n_results where_clause =
     (if n_results \<le> 0 then Inl (ExternalError ''n_results must be positive'')
      else
        (let admitted =
               filter (\<lambda>(doc, md, dist).
                         case where_clause of
                           None \<Rightarrow> True
                         | Some ts \<Rightarrow> get_or (cm_doc_type md) [] \<in> set ts)
                 example_rows;
             rows = take (nat n_results) admitted
         in Inr \<lparr> documents = [map fst rows],
                  metadatas = [map (fst \<circ> snd) rows],
                  distances = [map (snd \<circ> snd) rows] \<rparr>))"

definition example_vs :: vector_service where
  "example_vs =
     \<lparr> vs_embedding_service = example_es,
       collection = Some example_index,
       vs_is_ready = True \<rparr>"

definition example_rs :: rag_service where
  "example_rs = \<lparr> rs_vector_service = example_vs, rs_is_ready = True \<rparr>"

definition example_rs_embedder_down :: rag_service where
  \<comment> \<open>The same retriever over an embedding service whose model failed to load.\<close>
  "example_rs_embedder_down =
     example_rs\<lparr>rs_vector_service :=
       example_vs\<lparr>vs_embedding_service := example_es\<lparr>model := None, es_is_ready := False\<rparr>\<rparr>\<rparr>"

text \<open>
  A document processor over the same embedding service, and a directory of three entries:
  a file that cannot be decoded, a subdirectory, and a readable file. In a second tree
  the walk yields a readable file and a file in a directory that may be listed but not
  searched, on which \<open>is_file\<close> raises.
\<close>

definition example_dp :: document_processor where
  "example_dp = \<lparr> dp_embedding_service = example_es, dp_is_ready = True \<rparr>"

definition example_env :: environment where
  "example_env =
     \<lparr> uuid4 = (\<lambda>p i. ''id-'' @ str_int (int i)),
       now_isoformat = (\<lambda>p i. ''2024-01-01T00:00:00''),
       search_title = (\<lambda>content. None),
       search_date = (\<lambda>name. None) \<rparr>"



definition example_doc :: chunk_doc where
  "example_doc =
     \<lparr> cd_id = ''id-0'',
       cd_content = ''Flox is here Use it'',
       cd_chunk_index = 0,
       cd_total_chunks = 1,
       cd_source_file = ''docs/flox/a.md'',
       cd_source_name = ''a.md'',
       cd_doc_type = ''flox_docs'',
       cd_metadata =
         \<lparr> md_file_path = ''docs/flox/a.md'',
           md_file_name = ''a.md'',
           md_file_size = 20,
           md_doc_type = ''flox_docs'',
           md_created_at = ''2024-01-01T00:00:00'',
           md_title = None,
           md_category = ''flox_docs'',
           md_publish_date = None,
           md_word_count = 5 \<rparr>,
       cd_created_at = ''2024-01-01T00:00:00'',
       cd_token_count = 5 \<rparr>"

section \<open>Specification-level notions\<close>

text \<open>
  A chunk record is well formed with respect to the chunk list of its document when it
  carries the length of that list, its index is a position of the list, its content is
  the chunk at that position, and the content is not blank.
\<close>

definition well_formed_chunk :: "string list \<Rightarrow> chunk_doc \<Rightarrow> bool" where
  "well_formed_chunk chunks d =
     (cd_total_chunks d = int (length chunks) \<and> 0 \<le> cd_chunk_index d
      \<and> cd_chunk_index d < cd_total_chunks d
      \<and> cd_content d = chunks ! nat (cd_chunk_index d)
      \<and> strip (cd_content d) \<noteq> [])"

text \<open>
  First-match classification over an ordered list of (keyword, tag) pairs: the tag of the
  first keyword that occurs in the string, the fallback when none does. The two rule lists
  and the renaming that relates a document type to a category.
\<close>

fun first_match :: "(string \<times> string) list \<Rightarrow> string \<Rightarrow> string \<Rightarrow> string" where
  "first_match [] fallback s = fallback"
| "first_match ((keyword, tag) # rules) fallback s =
     (if str_in keyword s then tag else first_match rules fallback s)"

definition doc_type_rules :: "(string \<times> string) list" where
  "doc_type_rules =
     [(''blogs'', ''blog_post''), (''flox'', ''flox_docs''), (''nix'', ''nix_docs''),
      (''processed'', ''processed_docs'')]"

definition category_rules :: "(string \<times> string) list" where
  "category_rules =
     [(''blogs'', ''blog''), (''flox'', ''flox_docs''), (''nix'', ''nix_docs'')]"

definition category_of_doc_type :: "string \<Rightarrow> string option" where
  "category_of_doc_type t =
     (if t = ''blog_post'' then Some ''blog''
      else if t = ''flox_docs'' then Some ''flox_docs''
      else if t = ''nix_docs'' then Some ''nix_docs''
      else if t = ''general'' then Some ''general''
      else None)"

text \<open>
  The deciding keyword of a path: the first of blogs, flox, nix, processed that occurs in
  the lower-cased path, if one does.
\<close>

fun first_keyword :: "string list \<Rightarrow> string \<Rightarrow> string option" where
  "first_keyword [] s = None"
| "first_keyword (keyword # keywords) s =
     (if str_in keyword s then Some keyword else first_keyword keywords s)"

definition deciding_keyword :: "string \<Rightarrow> string option" where
  "deciding_keyword p = first_keyword (map fst doc_type_rules) (lower p)"

text \<open>
  A tokenizer in the manner of tiktoken's \<open>encode\<close> with its default arguments: it
  raises on a text that contains the special token \<open><|endoftext|>\<close>, and otherwise
  yields one token for each character.
\<close>

definition example_encode :: "string \<Rightarrow> error + nat list" where
  "example_encode text =
     (if str_in ''<|endoftext|>'' text then Inl (ExternalError ''ValueError'')
      else Inr (map of_char text))"

text \<open>
  Deduplication by a key, the first occurrence of each key winning: keep the head and
  drop every later element that has the head's key.
\<close>

fun dedup_first :: "('a \<Rightarrow> 'k) \<Rightarrow> 'a list \<Rightarrow> 'a list" where
  "dedup_first key [] = []"
| "dedup_first key (x # xs) = x # dedup_first key (filter (\<lambda>y. key y \<noteq> key x) xs)"

definition index_calls :: "call list \<Rightarrow> (int \<times> string list option) list" where
  \<comment> \<open>The index queries of a call log: the number of results asked for and the filter.\<close>
  "index_calls calls =
     concat (map (\<lambda>c. case c of Embed t \<Rightarrow> [] | Query es k w \<Rightarrow> [(k, w)]) calls)"

text \<open>
  The sentence pieces of a cleaned text: the pieces between runs of \<open>.\<close>, \<open>!\<close> and \<open>?\<close>,
  trimmed, the empty ones dropped.
\<close>

definition sentence_pieces :: "string \<Rightarrow> string list" where
  "sentence_pieces text = filter (\<lambda>s. s \<noteq> []) (map strip (re_split_punct text))"

definition trimmed :: "string \<Rightarrow> bool" where
  \<comment> \<open>A non-empty string with no whitespace at either end.\<close>
  "trimmed s = (s \<noteq> [] \<and> \<not> isspace (hd s) \<and> \<not> isspace (last s))"

section \<open>Properties of the string operations\<close>

lemma strip_all_space: "(\<forall>c\<in>set s. isspace c) \<Longrightarrow> strip s = []"
proof -
  assume a: "\<forall>c\<in>set s. isspace c"
  then have d: "dropWhile isspace s = []" by simp
  show ?thesis unfolding strip_def d by simp
qed

section \<open>Query-time behaviour\<close>

text \<open>
  C10. \<open>FloxVectorRAGService.search\<close> returns the empty list for a query that is empty
  or consists of whitespace only, whatever the state of the service, the index, the
  number of results asked for and the filter, and it makes no call to the embedder or to
  the index.
\<close>

theorem search_blank_query:
  assumes "list_all isspace query"
  shows "search vs query n_results doc_types = ([], [])"
proof -
  from assms have "\<forall>c\<in>set query. isspace c" by (simp add: list_all_iff)
  then have "strip query = []" by (rule strip_all_space)
  then show ?thesis by (simp add: search_def)
qed

theorem search_blank_query_witness:
  "list_all isspace [CHR '' '', CHR 0x09] \<and> vs_is_ready example_vs
   \<and> search example_vs [CHR '' '', CHR 0x09] 5 None = ([], [])
   \<and> fst (search example_vs ''x'' 5 None) \<noteq> []"
proof -
  have blank: "list_all isspace [CHR '' '', CHR 0x09]" by (simp add: isspace_def)
  have nonblank: "fst (search example_vs ''x'' 5 None) \<noteq> []" by code_simp
  have ready: "vs_is_ready example_vs" by (simp add: example_vs_def)
  show ?thesis
    using blank ready nonblank search_blank_query [OF blank, of example_vs 5 None]
    by simp
qed

lemma index_calls_append: "index_calls (a @ b) = index_calls a @ index_calls b"
  by (simp add: index_calls_def)

lemma search_embedder_down:
  assumes "\<not> (vs_is_ready vs \<and> es_is_ready (vs_embedding_service vs))"
  shows "fst (search vs q n dt) = [] \<and> index_calls (snd (search vs q n dt)) = []"
proof (cases "vs_is_ready vs \<and> strip q \<noteq> []")
  case False
  then show ?thesis by (auto simp: search_def index_calls_def)
next
  case True
  with assms have "\<not> es_is_ready (vs_embedding_service vs)" by simp
  then have "search_try vs q n dt
               = (Inl (RuntimeError ''Embedding service not initialized''), [Embed q])"
    by (simp add: search_try_def generate_embedding_def generate_embeddings_def)
  with True show ?thesis by (simp add: search_def index_calls_def)
qed

text \<open>
  C5. When the retriever is not ready (its own flag is unset, or the vector service or the
  embedding service under it is not ready), \<open>FloxRAGService.search\<close> returns the empty list
  and \<open>get_context_for_query\<close> returns the empty string with the empty list, and the index
  is not queried. No error reaches the caller: the \<open>RuntimeError\<close> of an embedding service
  that is not ready is raised inside the \<open>try\<close> block of the vector search, whose handler
  returns the empty list.
\<close>

theorem not_ready_empty_context:
  assumes "\<not> (rs_is_ready rs \<and> vs_is_ready (rs_vector_service rs)
              \<and> es_is_ready (vs_embedding_service (rs_vector_service rs)))"
  shows "fst (rag_search rs query) = []
         \<and> fst (get_context_for_query rs query) = ([], [])
         \<and> index_calls (snd (get_context_for_query rs query)) = []"
proof -
  let ?vs = "rs_vector_service rs"
  have swc: "fst (search_with_context ?vs q ctx 5) = []
             \<and> index_calls (snd (search_with_context ?vs q ctx 5)) = []"
    if down: "\<not> (vs_is_ready ?vs \<and> es_is_ready (vs_embedding_service ?vs))" for q ctx
  proof (cases "vs_is_ready ?vs")
    case False
    then show ?thesis by (simp add: search_with_context_def index_calls_def)
  next
    case True
    let ?q = "strip (q @ '' '' @ ctx)"
    obtain p1 c1 where s1: "search ?vs ?q 5 (Some [''flox_docs'', ''blog_post'']) = (p1, c1)"
      by (cases "search ?vs ?q 5 (Some [''flox_docs'', ''blog_post''])")
    obtain p2 c2 where s2: "search ?vs ?q 5 None = (p2, c2)"
      by (cases "search ?vs ?q 5 None")
    from search_embedder_down [OF down, of ?q 5 "Some [''flox_docs'', ''blog_post'']"] s1
    have e1: "p1 = []" "index_calls c1 = []" by simp_all
    from search_embedder_down [OF down, of ?q 5 None] s2
    have e2: "p2 = []" "index_calls c2 = []" by simp_all
    from True s1 s2 e1 e2 show ?thesis
      by (simp add: search_with_context_def Let_def slice_to_def index_calls_append)
  qed
  have rag: "fst (rag_search rs query) = [] \<and> index_calls (snd (rag_search rs query)) = []"
  proof (cases "rs_is_ready rs")
    case False
    then show ?thesis by (simp add: rag_search_def index_calls_def)
  next
    case True
    with assms have "\<not> (vs_is_ready ?vs \<and> es_is_ready (vs_embedding_service ?vs))" by simp
    from swc [OF this, of query "''flox development environment package management''"] True
    show ?thesis
      by (simp add: rag_search_def Let_def sort_desc_def split_beta)
  qed
  then show ?thesis
    by (simp add: get_context_for_query_def Let_def split_beta)
qed

theorem not_ready_empty_context_witness:
  "rs_is_ready example_rs_embedder_down
   \<and> vs_is_ready (rs_vector_service example_rs_embedder_down)
   \<and> \<not> es_is_ready (vs_embedding_service (rs_vector_service example_rs_embedder_down))
   \<and> fst (rag_search example_rs_embedder_down ''flox'') = []
   \<and> fst (get_context_for_query example_rs_embedder_down ''flox'') = ([], [])
   \<and> \<not> rs_is_ready (example_rs\<lparr>rs_is_ready := False\<rparr>)
   \<and> fst (get_context_for_query (example_rs\<lparr>rs_is_ready := False\<rparr>) ''flox'') = ([], [])
   \<and> fst (rag_search example_rs ''flox'') \<noteq> []"
proof -
  have r: "rs_is_ready example_rs_embedder_down"
    and v: "vs_is_ready (rs_vector_service example_rs_embedder_down)"
    and e: "\<not> es_is_ready (vs_embedding_service (rs_vector_service example_rs_embedder_down))"
    by (simp_all add: example_rs_embedder_down_def example_rs_def example_vs_def)
  from e have h1: "\<not> (rs_is_ready example_rs_embedder_down
       \<and> vs_is_ready (rs_vector_service example_rs_embedder_down)
       \<and> es_is_ready (vs_embedding_service (rs_vector_service example_rs_embedder_down)))"
    by simp
  have f: "\<not> rs_is_ready (example_rs\<lparr>rs_is_ready := False\<rparr>)" by simp
  then have h2: "\<not> (rs_is_ready (example_rs\<lparr>rs_is_ready := False\<rparr>)
       \<and> vs_is_ready (rs_vector_service (example_rs\<lparr>rs_is_ready := False\<rparr>))
       \<and> es_is_ready (vs_embedding_service
                         (rs_vector_service (example_rs\<lparr>rs_is_ready := False\<rparr>))))"
    by simp
  have live: "fst (rag_search example_rs ''flox'') \<noteq> []" by code_simp
  from not_ready_empty_context [OF h1, of "''flox''"] not_ready_empty_context [OF h2, of "''flox''"]
    r v e f live
  show ?thesis by blast
qed

section \<open>Ingestion\<close>

lemma chunk_docs_loop_inv:
  assumes "chunk_docs_loop dp env fp dt md len i chunks acc = Inr docs"
    and "all_chunks = pre @ chunks" and "length pre = i" and "len = int (length all_chunks)"
    and "\<forall>d\<in>set acc. well_formed_chunk all_chunks d"
  shows "\<forall>d\<in>set docs. well_formed_chunk all_chunks d"
  using assms(1-5)
proof (induction chunks arbitrary: i acc pre)
  case Nil
  then show ?case by simp
next
  case (Cons chunk chunks)
  show ?case
  proof (cases "strip chunk = []")
    case True
    with Cons.prems(1) have "chunk_docs_loop dp env fp dt md len (Suc i) chunks acc = Inr docs"
      by simp
    then show ?thesis
      using Cons.IH [of "Suc i" acc "pre @ [chunk]"] Cons.prems by simp
  next
    case False
    with Cons.prems(1) obtain tokens where
      t: "get_token_count (dp_embedding_service dp) chunk = Inr tokens"
      by (auto split: sum.splits)
    let ?d = "\<lparr> cd_id = uuid4 env fp i, cd_content = chunk, cd_chunk_index = int i,
                cd_total_chunks = len, cd_source_file = fp, cd_source_name = path_name fp,
                cd_doc_type = dt, cd_metadata = md,
                cd_created_at = now_isoformat env fp (Some i), cd_token_count = tokens \<rparr>"
    from Cons.prems(1) False t have
      r: "chunk_docs_loop dp env fp dt md len (Suc i) chunks (acc @ [?d]) = Inr docs"
      by simp
    have "well_formed_chunk all_chunks ?d"
      using Cons.prems(2,3,4) False by (simp add: well_formed_chunk_def nth_append)
    then have "\<forall>d\<in>set (acc @ [?d]). well_formed_chunk all_chunks d"
      using Cons.prems(5) by simp
    then show ?thesis
      using Cons.IH [of "Suc i" "acc @ [?d]" "pre @ [chunk]"] r Cons.prems(2,3,4) by simp
  qed
qed

text \<open>
  C7. Every chunk record \<open>process_document\<close> emits has \<open>0 \<le> chunk_index < total_chunks\<close>
  and a content that is not empty after trimming whitespace. Moreover \<open>total_chunks\<close> is
  the number of chunks of the document and the content is the chunk at \<open>chunk_index\<close>.
\<close>

theorem chunk_record_invariant:
  assumes "process_document dp env file_path body dtype = Inr docs"
    and "d \<in> set docs"
  shows "0 \<le> cd_chunk_index d \<and> cd_chunk_index d < cd_total_chunks d
         \<and> strip (cd_content d) \<noteq> []
         \<and> cd_total_chunks d = int (length (chunk_text (dp_embedding_service dp) body None))
         \<and> cd_content d = chunk_text (dp_embedding_service dp) body None ! nat (cd_chunk_index d)"
proof -
  let ?chunks = "chunk_text (dp_embedding_service dp) body None"
  from assms(1) have
    "chunk_docs_loop dp env file_path dtype
       (extract_metadata env file_path body dtype) (int (length ?chunks)) 0 ?chunks []
     = Inr docs"
    by (simp add: process_document_def Let_def split: if_splits)
  then have "\<forall>d\<in>set docs. well_formed_chunk ?chunks d"
    by (rule chunk_docs_loop_inv [where pre = "[]"]) simp_all
  with assms(2) have "well_formed_chunk ?chunks d" by blast
  then show ?thesis unfolding well_formed_chunk_def by blast
qed

theorem chunk_record_invariant_witness:
  "process_document example_dp example_env ''docs/flox/a.md'' ''Flox is here. Use it''
     ''flox_docs'' = Inr [example_doc]
   \<and> example_doc \<in> set [example_doc]
   \<and> 0 \<le> cd_chunk_index example_doc
   \<and> cd_chunk_index example_doc < cd_total_chunks example_doc
   \<and> strip (cd_content example_doc) \<noteq> []"
proof -
  have run: "process_document example_dp example_env ''docs/flox/a.md''
               ''Flox is here. Use it'' ''flox_docs'' = Inr [example_doc]"
    by code_simp
  have mem: "example_doc \<in> set [example_doc]" by simp
  from chunk_record_invariant [OF run mem]
  have "0 \<le> cd_chunk_index example_doc
        \<and> cd_chunk_index example_doc < cd_total_chunks example_doc
        \<and> strip (cd_content example_doc) \<noteq> []"
    by blast
  with run mem show ?thesis by blast
qed






section \<open>Classification\<close>

text \<open>
  C8, as stated, fails: \<open>_extract_metadata\<close> matches the path as written and has no rule for
  \<open>processed\<close>, while \<open>_determine_doc_type\<close> matches the lower-cased path. A path with an
  upper-case keyword gets the type \<open>flox_docs\<close> and the category \<open>general\<close>; a path with
  only the keyword \<open>processed\<close> gets a type the renaming does not cover.
\<close>

theorem classification_agreement_counterexample:
  "determine_doc_type ''docs/Flox/intro.md'' = ''flox_docs''
   \<and> md_category (extract_metadata example_env ''docs/Flox/intro.md'' ''Intro'' ''flox_docs'')
       = ''general''
   \<and> category_of_doc_type ''flox_docs'' \<noteq> Some ''general''
   \<and> determine_doc_type ''processed/a.md'' = ''processed_docs''
   \<and> md_category (extract_metadata example_env ''processed/a.md'' ''Intro'' ''processed_docs'')
       = ''general''
   \<and> category_of_doc_type ''processed_docs'' = None"
  by code_simp

lemma str_in_lower: "str_in k p \<Longrightarrow> str_in (lower k) (lower p)"
proof (induction p)
  case Nil
  then show ?case by (simp add: lower_def)
next
  case (Cons c cs)
  from Cons.prems have "prefix k (c # cs) \<or> str_in k cs" by simp
  then show ?case
  proof
    assume "prefix k (c # cs)"
    then have "prefix (map lower_char k) (map lower_char (c # cs))" by (rule map_mono_prefix)
    then show ?thesis by (simp add: lower_def)
  next
    assume "str_in k cs"
    then have "str_in (lower k) (lower cs)" by (rule Cons.IH)
    then show ?thesis by (simp add: lower_def)
  qed
qed

lemma keyword_survives_lower:
  "str_in ''blogs'' p \<Longrightarrow> str_in ''blogs'' (lower p)"
  "str_in ''flox'' p \<Longrightarrow> str_in ''flox'' (lower p)"
  "str_in ''nix'' p \<Longrightarrow> str_in ''nix'' (lower p)"
proof -
  have b: "lower ''blogs'' = ''blogs''" by code_simp
  have f: "lower ''flox'' = ''flox''" by code_simp
  have n: "lower ''nix'' = ''nix''" by code_simp
  show "str_in ''blogs'' p \<Longrightarrow> str_in ''blogs'' (lower p)"
    using str_in_lower [of "''blogs''" p] unfolding b .
  show "str_in ''flox'' p \<Longrightarrow> str_in ''flox'' (lower p)"
    using str_in_lower [of "''flox''" p] unfolding f .
  show "str_in ''nix'' p \<Longrightarrow> str_in ''nix'' (lower p)"
    using str_in_lower [of "''nix''" p] unfolding n .
qed

text \<open>
  C8, amended. The document type is the first match of the lower-cased path over
  (blogs, flox, nix, processed), \<open>general\<close> when none matches. The category is the first
  match of the path as written over (blogs, flox, nix), \<open>general\<close> when none matches. The
  two agree under the renaming exactly when no keyword occurs in the lower-cased path, or
  the first keyword that occurs there is not \<open>processed\<close> and also occurs in the path as
  written. In particular they agree whenever each of blogs, flox, nix occurs in the path
  as written exactly if it occurs in the lower-cased path, and the type is not
  \<open>processed_docs\<close>.
\<close>

theorem classification_agreement:
  "determine_doc_type p = first_match doc_type_rules ''general'' (lower p)
   \<and> md_category (extract_metadata env p body dtype) = first_match category_rules ''general'' p
   \<and> ((category_of_doc_type (determine_doc_type p)
          = Some (md_category (extract_metadata env p body dtype)))
        \<longleftrightarrow> (case deciding_keyword p of
               None \<Rightarrow> True
             | Some k \<Rightarrow> k \<noteq> ''processed'' \<and> str_in k p))
   \<and> (str_in ''blogs'' (lower p) = str_in ''blogs'' p
        \<and> str_in ''flox'' (lower p) = str_in ''flox'' p
        \<and> str_in ''nix'' (lower p) = str_in ''nix'' p
        \<and> determine_doc_type p \<noteq> ''processed_docs'' \<longrightarrow>
        category_of_doc_type (determine_doc_type p)
          = Some (md_category (extract_metadata env p body dtype)))"
proof -
  have a: "determine_doc_type p = first_match doc_type_rules ''general'' (lower p)"
    by (simp add: determine_doc_type_def doc_type_rules_def Let_def)
  have b: "md_category (extract_metadata env p body dtype)
             = first_match category_rules ''general'' p"
    by (simp add: extract_metadata_def category_rules_def)
  have c: "(category_of_doc_type (first_match doc_type_rules ''general'' (lower p))
              = Some (first_match category_rules ''general'' p))
           \<longleftrightarrow> (case deciding_keyword p of
                  None \<Rightarrow> True
                | Some k \<Rightarrow> k \<noteq> ''processed'' \<and> str_in k p)"
    using keyword_survives_lower [of p]
    by (auto simp: doc_type_rules_def category_rules_def category_of_doc_type_def
          deciding_keyword_def)
  have d: "category_of_doc_type (first_match doc_type_rules ''general'' (lower p))
              = Some (first_match category_rules ''general'' p)"
    if "str_in ''blogs'' (lower p) = str_in ''blogs'' p"
      and "str_in ''flox'' (lower p) = str_in ''flox'' p"
      and "str_in ''nix'' (lower p) = str_in ''nix'' p"
      and "first_match doc_type_rules ''general'' (lower p) \<noteq> ''processed_docs''"
    using that
    by (auto simp: doc_type_rules_def category_rules_def category_of_doc_type_def
          split: if_splits)
  from c d show ?thesis unfolding a b by blast
qed

theorem classification_agreement_witness:
  "lower ''data/flox_docs/README.md'' \<noteq> ''data/flox_docs/README.md''
   \<and> deciding_keyword ''data/flox_docs/README.md'' = Some ''flox''
   \<and> str_in ''flox'' ''data/flox_docs/README.md''
   \<and> category_of_doc_type (determine_doc_type ''data/flox_docs/README.md'')
        = Some (md_category
                  (extract_metadata example_env ''data/flox_docs/README.md'' ''Intro'' ''flox_docs''))
   \<and> determine_doc_type ''data/flox_docs/blogs/Introducing-Flox-Build.md'' \<noteq> ''processed_docs''
   \<and> category_of_doc_type (determine_doc_type ''data/flox_docs/blogs/Introducing-Flox-Build.md'')
        = Some (md_category
                  (extract_metadata example_env ''data/flox_docs/blogs/Introducing-Flox-Build.md''
                     ''Intro'' ''blog_post''))"
proof -
  let ?p = "''data/flox_docs/README.md''"
  let ?q = "''data/flox_docs/blogs/Introducing-Flox-Build.md''"
  have l: "lower ?p \<noteq> ?p" by code_simp
  have k: "deciding_keyword ?p = Some ''flox''" by code_simp
  have s: "str_in ''flox'' ?p" by code_simp
  have q1: "str_in ''blogs'' (lower ?q) = str_in ''blogs'' ?q" by code_simp
  have q2: "str_in ''flox'' (lower ?q) = str_in ''flox'' ?q" by code_simp
  have q3: "str_in ''nix'' (lower ?q) = str_in ''nix'' ?q" by code_simp
  have q4: "determine_doc_type ?q \<noteq> ''processed_docs''" by code_simp
  have rhs: "case deciding_keyword ?p of
               None \<Rightarrow> True
             | Some k \<Rightarrow> k \<noteq> ''processed'' \<and> str_in k ?p"
    unfolding k using s by simp
  from classification_agreement [of ?p example_env "''Intro''" "''flox_docs''"]
  have "(category_of_doc_type (determine_doc_type ?p)
          = Some (md_category (extract_metadata example_env ?p ''Intro'' ''flox_docs'')))
        \<longleftrightarrow> (case deciding_keyword ?p of
               None \<Rightarrow> True
             | Some k \<Rightarrow> k \<noteq> ''processed'' \<and> str_in k ?p)"
    by blast
  with rhs have w1: "category_of_doc_type (determine_doc_type ?p)
        = Some (md_category (extract_metadata example_env ?p ''Intro'' ''flox_docs''))"
    by blast
  from classification_agreement [of ?q example_env "''Intro''" "''blog_post''"] q1 q2 q3 q4
  have w2: "category_of_doc_type (determine_doc_type ?q)
        = Some (md_category (extract_metadata example_env ?q ''Intro'' ''blog_post''))"
    by blast
  from l k s w1 q4 w2 show ?thesis by blast
qed

section \<open>Token counting\<close>

lemma split_acc_nonempty: "cur \<noteq> [] \<Longrightarrow> 1 \<le> length (split_acc cur s)"
  by (induction s arbitrary: cur) auto

lemma split_acc_extend: "length (split_acc cur s) \<le> length (split_acc cur (s @ u))"
proof (induction s arbitrary: cur)
  case Nil
  then show ?case using split_acc_nonempty [of cur u] by auto
next
  case (Cons c cs)
  then show ?case by auto
qed

lemma split_acc_length:
  "length (split_acc cur s) \<le> length s + (if cur = [] then 0 else 1)"
proof (induction s arbitrary: cur)
  case Nil
  then show ?case by simp
next
  case (Cons c cs)
  show ?case
  proof (cases "isspace c")
    case True
    then show ?thesis using Cons.IH [of "[]"] by simp
  next
    case False
    then show ?thesis using Cons.IH [of "cur @ [c]"] by simp
  qed
qed

text \<open>
  C9, as stated, fails twice. Without a tokenizer the count is the number of words, which
  does not grow with the length of the text: a text of three characters has two words, a
  text of four has one. With a tokenizer loaded the function calls it unguarded, so it
  fails where the tokenizer does.
\<close>

theorem token_count_counterexample:
  "length ''a b'' \<le> length ''abcd''
   \<and> get_token_count example_es ''a b'' = Inr 2
   \<and> get_token_count example_es ''abcd'' = Inr 1
   \<and> isl (get_token_count (example_es\<lparr>encoding := Some example_encode\<rparr>) ''<|endoftext|>'')"
  by code_simp

text \<open>
  C9, amended. Whenever \<open>get_token_count\<close> returns, the result is a non-negative integer.
  With no tokenizer loaded it always returns, and the result is the whitespace-split token
  count of the text, which never decreases when the text is extended and never exceeds the
  length of the text. With a tokenizer loaded it returns the number of tokens of the
  encoding, and it fails exactly when the tokenizer fails.
\<close>

theorem token_count_properties:
  "(\<forall>n. get_token_count es s = Inr n \<longrightarrow> 0 \<le> n)
   \<and> (encoding es = None \<longrightarrow>
        get_token_count es s = Inr (int (length (split s)))
        \<and> projr (get_token_count es s) \<le> projr (get_token_count es (s @ u))
        \<and> projr (get_token_count es s) \<le> int (length s))
   \<and> (\<forall>encode. encoding es = Some encode \<longrightarrow>
        isl (get_token_count es s) = isl (encode s)
        \<and> (\<forall>tokens. encode s = Inr tokens \<longrightarrow>
               get_token_count es s = Inr (int (length tokens))))"
proof -
  have nonneg: "\<forall>n. get_token_count es s = Inr n \<longrightarrow> 0 \<le> n"
    by (auto simp: get_token_count_def split: option.splits sum.splits)
  have fallback: "get_token_count es s = Inr (int (length (split s)))
        \<and> projr (get_token_count es s) \<le> projr (get_token_count es (s @ u))
        \<and> projr (get_token_count es s) \<le> int (length s)"
    if "encoding es = None"
    using that split_acc_extend [of "[]" s u] split_acc_length [of "[]" s]
    by (simp add: get_token_count_def split_def)
  have loaded: "isl (get_token_count es s) = isl (encode s)
        \<and> (\<forall>tokens. encode s = Inr tokens \<longrightarrow>
               get_token_count es s = Inr (int (length tokens)))"
    if "encoding es = Some encode" for encode
    using that by (auto simp: get_token_count_def split: sum.splits)
  from nonneg fallback loaded show ?thesis by blast
qed

theorem token_count_properties_witness:
  "encoding example_es = None
   \<and> get_token_count example_es ''a b'' = Inr 2
   \<and> projr (get_token_count example_es ''a b'') \<le> projr (get_token_count example_es (''a b'' @ '' c''))
   \<and> encoding (example_es\<lparr>encoding := Some example_encode\<rparr>) = Some example_encode
   \<and> example_encode ''a b'' = Inr [97, 32, 98]
   \<and> get_token_count (example_es\<lparr>encoding := Some example_encode\<rparr>) ''a b'' = Inr 3"
proof -
  have none: "encoding example_es = None" by (simp add: example_es_def)
  have some: "encoding (example_es\<lparr>encoding := Some example_encode\<rparr>) = Some example_encode"
    by simp
  have enc: "example_encode ''a b'' = Inr [97, 32, 98]" by code_simp
  have words: "int (length (split ''a b'')) = 2" by code_simp
  from token_count_properties [of example_es "''a b''" "'' c''"] none
  have a1: "get_token_count example_es ''a b'' = Inr (int (length (split ''a b'')))"
    and a2: "projr (get_token_count example_es ''a b'')
               \<le> projr (get_token_count example_es (''a b'' @ '' c''))"
    by blast+
  have a3: "get_token_count example_es ''a b'' = Inr 2"
    using a1 unfolding words .
  from token_count_properties [of "example_es\<lparr>encoding := Some example_encode\<rparr>" "''a b''" "[]"]
    some enc
  have "get_token_count (example_es\<lparr>encoding := Some example_encode\<rparr>) ''a b''
          = Inr (int (length [97, 32, 98 :: nat]))"
    by blast
  then have a4: "get_token_count (example_es\<lparr>encoding := Some example_encode\<rparr>) ''a b'' = Inr 3"
    by simp
  from none some enc a2 a3 a4 show ?thesis by blast
qed

section \<open>Relevance scores\<close>

lemma boost_upper_bound: "relevance_score (boost has_flox_context r) \<le> 1"
  by (simp add: boost_def Let_def)

lemma boost_monotone_nonneg:
  assumes "0 \<le> relevance_score r" and "relevance_score r \<le> 1"
  shows "relevance_score r \<le> relevance_score (boost has_flox_context r)"
proof -
  let ?x = "relevance_score r"
  have a: "?x \<le> ?x * 1.5" using assms(1) by simp
  have b: "?x \<le> ?x * 1.3" using assms(1) by simp
  have c: "?x \<le> ?x * 1.5 * 1.3"
  proof -
    have "?x * 1 \<le> ?x * (1.5 * 1.3)" using assms(1) by (intro mult_left_mono) simp_all
    then show ?thesis by simp
  qed
  from a b c assms(2) show ?thesis
    by (simp add: boost_def Let_def min_def)
qed

text \<open>
  C3 on the loaded example service. A stored chunk at cosine distance \<open>3/2\<close> from the query
  leaves the vector search with the score \<open>-1/2\<close>, and the retriever, which only takes the
  minimum with \<open>1.0\<close>, hands it to the caller as \<open>-3/4\<close>.
\<close>

theorem search_score_below_zero:
  "map (\<lambda>r. (source r, relevance_score r)) (fst (search example_vs ''hello'' 5 None))
     = [(''flox_intro.md'', 3/4), (''cooking.md'', 1/2), (''nix.md'', 1/4), (''other.md'', - 1/2)]
   \<and> map (\<lambda>r. (source r, relevance_score r)) (fst (rag_search example_rs ''hello''))
     = [(''flox_intro.md'', 1), (''cooking.md'', 1/2), (''nix.md'', 1/4), (''other.md'', - 3/4)]"
  by code_simp

text \<open>
  C2 on one result. For the chunk at distance \<open>3/2\<close>, of a preferred document type, the
  score before boosting is \<open>-1/2\<close> and the score after boosting is \<open>-3/4\<close>, which is
  smaller.
\<close>

theorem boost_lowers_negative_score:
  "relevance_score (make_result (''Unrelated text'', example_md ''other.md'' ''flox_docs'' 1, 3/2))
     = - 1/2
   \<and> relevance_score
        (boost False (make_result (''Unrelated text'', example_md ''other.md'' ''flox_docs'' 1, 3/2)))
     = - 3/4"
  by code_simp

section \<open>The deduplication key\<close>

lemma digit_mem: "d < 10 \<Longrightarrow> digit d \<in> set ''0123456789''"
  unfolding digit_def by (rule nth_mem) simp

lemma digit_inj: "d < 10 \<Longrightarrow> e < 10 \<Longrightarrow> digit d = digit e \<Longrightarrow> d = e"
proof -
  have dist: "distinct ''0123456789''" by simp
  assume "d < 10" "e < 10" "digit d = digit e"
  then show "d = e"
    unfolding digit_def using dist nth_eq_iff_index_eq [OF dist, of d e] by simp
qed

lemma str_nat_digits: "set (str_nat n) \<subseteq> set ''0123456789''"
proof (induction n rule: str_nat.induct)
  case (1 n)
  show ?case
  proof (cases "n < 10")
    case True
    then show ?thesis using digit_mem [of n] by (subst str_nat.simps) simp
  next
    case False
    have "n mod 10 < 10" by simp
    then have "digit (n mod 10) \<in> set ''0123456789''" by (rule digit_mem)
    with False 1 show ?thesis by (subst str_nat.simps) simp
  qed
qed

lemma str_nat_not_Nil: "str_nat n \<noteq> []"
  by (subst str_nat.simps) simp

lemma str_nat_inj: "str_nat n = str_nat m \<Longrightarrow> n = m"
proof (induction n arbitrary: m rule: str_nat.induct)
  case (1 n)
  show ?case
  proof (cases "n < 10")
    case small_n: True
    show ?thesis
    proof (cases "m < 10")
      case True
      with small_n "1.prems" have "digit n = digit m"
        by (subst (asm) str_nat.simps, subst (asm) (2) str_nat.simps) simp
      with small_n True show ?thesis by (rule digit_inj)
    next
      case False
      with small_n "1.prems" have "[digit n] = str_nat (m div 10) @ [digit (m mod 10)]"
        by (subst (asm) str_nat.simps, subst (asm) (2) str_nat.simps) simp
      then have "str_nat (m div 10) = []" by simp
      with str_nat_not_Nil show ?thesis by blast
    qed
  next
    case big_n: False
    show ?thesis
    proof (cases "m < 10")
      case True
      with big_n "1.prems" have "str_nat (n div 10) @ [digit (n mod 10)] = [digit m]"
        by (subst (asm) str_nat.simps, subst (asm) (2) str_nat.simps) simp
      then have "str_nat (n div 10) = []" by simp
      with str_nat_not_Nil show ?thesis by blast
    next
      case False
      with big_n "1.prems" have
        "str_nat (n div 10) @ [digit (n mod 10)] = str_nat (m div 10) @ [digit (m mod 10)]"
        by (subst (asm) str_nat.simps, subst (asm) (2) str_nat.simps) simp
      then have eq: "str_nat (n div 10) = str_nat (m div 10)"
        and d: "digit (n mod 10) = digit (m mod 10)"
        by simp_all
      from "1.IH" [OF big_n eq] have q: "n div 10 = m div 10" .
      have "n mod 10 = m mod 10" using d by (intro digit_inj) simp_all
      with q show ?thesis by (metis div_mult_mod_eq)
    qed
  qed
qed

lemma str_nat_avoids: "c \<notin> set ''0123456789'' \<Longrightarrow> c \<notin> set (str_nat n)"
  using str_nat_digits [of n] by blast

lemma str_int_inj: "str_int i = str_int j \<Longrightarrow> i = j"
proof -
  assume eq: "str_int i = str_int j"
  have no_minus: "hd (str_nat n) \<noteq> CHR ''-''" for n
  proof -
    have "hd (str_nat n) \<in> set (str_nat n)" using str_nat_not_Nil by simp
    moreover have "CHR ''-'' \<notin> set (str_nat n)" by (rule str_nat_avoids) simp
    ultimately show ?thesis by metis
  qed
  show "i = j"
  proof (cases "i < 0"; cases "j < 0")
    assume "i < 0" "j < 0"
    with eq have "str_nat (nat (- i)) = str_nat (nat (- j))" by (simp add: str_int_def)
    then have "nat (- i) = nat (- j)" by (rule str_nat_inj)
    with \<open>i < 0\<close> \<open>j < 0\<close> show ?thesis by simp
  next
    assume "i < 0" "\<not> j < 0"
    with eq have "CHR ''-'' # str_nat (nat (- i)) = str_nat (nat j)" by (simp add: str_int_def)
    then have "hd (str_nat (nat j)) = CHR ''-''" by (metis list.sel(1))
    with no_minus show ?thesis by blast
  next
    assume "\<not> i < 0" "j < 0"
    with eq have "str_nat (nat i) = CHR ''-'' # str_nat (nat (- j))" by (simp add: str_int_def)
    then have "hd (str_nat (nat i)) = CHR ''-''" by (metis list.sel(1))
    with no_minus show ?thesis by blast
  next
    assume "\<not> i < 0" "\<not> j < 0"
    with eq have "str_nat (nat i) = str_nat (nat j)" by (simp add: str_int_def)
    then have "nat i = nat j" by (rule str_nat_inj)
    with \<open>\<not> i < 0\<close> \<open>\<not> j < 0\<close> show ?thesis by simp
  qed
qed

lemma str_int_no_underscore: "CHR ''_'' \<notin> set (str_int i)"
proof -
  have "CHR ''_'' \<notin> set (str_nat n)" for n by (rule str_nat_avoids) simp
  then show ?thesis by (simp add: str_int_def)
qed

lemma split_at_last:
  "c \<notin> set x \<Longrightarrow> c \<notin> set y \<Longrightarrow> a @ c # x = b @ c # y \<Longrightarrow> a = b \<and> x = y"
proof (induction a arbitrary: b)
  case Nil
  then show ?case by (cases b) auto
next
  case (Cons h t)
  then show ?case by (cases b) auto
qed

lemma source_key_eq_iff:
  "source_key r = source_key r' \<longleftrightarrow> (source r, chunk_index r) = (source r', chunk_index r')"
proof
  assume "source_key r = source_key r'"
  then have "source r @ CHR ''_'' # str_int (chunk_index r)
               = source r' @ CHR ''_'' # str_int (chunk_index r')"
    by (simp add: source_key_def)
  then have "source r = source r' \<and> str_int (chunk_index r) = str_int (chunk_index r')"
    by (rule split_at_last [OF str_int_no_underscore str_int_no_underscore])
  then show "(source r, chunk_index r) = (source r', chunk_index r')"
    using str_int_inj by simp
next
  assume "(source r, chunk_index r) = (source r', chunk_index r')"
  then show "source_key r = source_key r'" by (simp add: source_key_def)
qed

section \<open>Two-pass retrieval\<close>

lemma dedup_first_key_cong:
  assumes "\<And>x y. f x = f y \<longleftrightarrow> g x = g y"
  shows "dedup_first f xs = dedup_first g xs"
  using assms
proof (induction f xs rule: dedup_first.induct)
  case (1 key)
  then show ?case by simp
next
  case (2 key x xs)
  have "filter (\<lambda>y. key y \<noteq> key x) xs = filter (\<lambda>y. g y \<noteq> g x) xs"
    using "2.prems" by (intro filter_cong) auto
  with "2.IH" "2.prems" show ?case by simp
qed

lemma dedup_loop_eq:
  "dedup_loop xs seen uniq =
     uniq @ dedup_first source_key (filter (\<lambda>r. source_key r \<notin> seen) xs)"
proof (induction xs arbitrary: seen uniq)
  case Nil
  then show ?case by simp
next
  case (Cons r rs)
  show ?case
  proof (cases "source_key r \<in> seen")
    case True
    then show ?thesis using Cons.IH [of seen uniq] by simp
  next
    case False
    have "filter (\<lambda>y. source_key y \<notin> insert (source_key r) seen) rs
            = filter (\<lambda>y. source_key y \<noteq> source_key r) (filter (\<lambda>y. source_key y \<notin> seen) rs)"
      by (induction rs) auto
    with False show ?thesis
      using Cons.IH [of "insert (source_key r) seen" "uniq @ [r]"] by simp
  qed
qed

lemma search_index_calls:
  "set (index_calls (snd (search vs q n dt)))
     \<subseteq> {(n, case dt of None \<Rightarrow> None | Some ts \<Rightarrow> if ts = [] then None else Some ts)}"
  by (auto simp: search_def search_try_def index_calls_def Let_def
           split: sum.splits option.splits list.splits if_splits prod.splits)

lemma search_not_ready: "\<not> vs_is_ready vs \<Longrightarrow> search vs q n dt = ([], [])"
  by (simp add: search_def)

text \<open>
  C1. Let \<open>pass1\<close> be the answer of \<open>search\<close> for the enhanced query, \<open>n\<close> results and the
  filter \<open>['flox_docs', 'blog_post']\<close>, and \<open>pass2\<close> the answer of the unfiltered \<open>search\<close> for
  \<open>n - len(pass1)\<close> results. If \<open>pass1\<close> has at least \<open>n\<close> results, \<open>search_with_context\<close>
  returns \<open>pass1\<close> and makes no call beyond those of the first pass. Otherwise it returns
  the first \<open>n\<close> entries of \<open>pass1 + pass2\<close> deduplicated by the key (source, chunk index),
  the first occurrence of each key kept. Every index query of the first pass carries the
  filter and asks for \<open>n\<close> results; every index query of the second is unfiltered and asks
  for \<open>n - len(pass1)\<close>.
\<close>

theorem two_pass_retrieval:
  assumes p1: "search vs (strip (query @ '' '' @ ctx)) n (Some [''flox_docs'', ''blog_post''])
                 = (pass1, calls1)"
    and p2: "search vs (strip (query @ '' '' @ ctx)) (n - int (length pass1)) None
                 = (pass2, calls2)"
  shows "search_with_context vs query ctx n =
           (if n \<le> int (length pass1) then (pass1, calls1)
            else (take (nat n)
                    (dedup_first (\<lambda>r. (source r, chunk_index r)) (pass1 @ pass2)),
                  calls1 @ calls2))
         \<and> set (index_calls calls1) \<subseteq> {(n, Some [''flox_docs'', ''blog_post''])}
         \<and> set (index_calls calls2) \<subseteq> {(n - int (length pass1), None)}"
proof -
  have key: "dedup_first source_key xs = dedup_first (\<lambda>r. (source r, chunk_index r)) xs" for xs
    by (rule dedup_first_key_cong) (rule source_key_eq_iff)
  have main: "search_with_context vs query ctx n =
           (if n \<le> int (length pass1) then (pass1, calls1)
            else (take (nat n)
                    (dedup_first (\<lambda>r. (source r, chunk_index r)) (pass1 @ pass2)),
                  calls1 @ calls2))"
  proof (cases "vs_is_ready vs")
    case False
    with p1 p2 have "pass1 = []" "calls1 = []" "pass2 = []" "calls2 = []"
      by (simp_all add: search_not_ready)
    with False show ?thesis by (simp add: search_with_context_def)
  next
    case True
    show ?thesis
    proof (cases "n \<le> int (length pass1)")
      case enough: True
      with True p1 show ?thesis by (simp add: search_with_context_def Let_def)
    next
      case short: False
      then have "0 \<le> n" by simp
      then have "slice_to n xs = take (nat n) xs" for xs :: "search_result list"
        by (simp add: slice_to_def)
      with True short p1 p2 show ?thesis
        by (simp add: search_with_context_def Let_def dedup_loop_eq key)
    qed
  qed
  have c1: "set (index_calls calls1) \<subseteq> {(n, Some [''flox_docs'', ''blog_post''])}"
    using search_index_calls [of vs "strip (query @ '' '' @ ctx)" n
            "Some [''flox_docs'', ''blog_post'']"] p1
    by simp
  have c2: "set (index_calls calls2) \<subseteq> {(n - int (length pass1), None)}"
    using search_index_calls [of vs "strip (query @ '' '' @ ctx)" "n - int (length pass1)" None] p2
    by simp
  from main c1 c2 show ?thesis by blast
qed

theorem two_pass_retrieval_witness:
  "map (\<lambda>r. (source r, chunk_index r))
     (fst (search example_vs ''hello world'' 3 (Some [''flox_docs'', ''blog_post''])))
     = [(''flox_intro.md'', 0), (''other.md'', 1)]
   \<and> map (\<lambda>r. (source r, chunk_index r)) (fst (search example_vs ''hello world'' 1 None))
     = [(''flox_intro.md'', 0)]
   \<and> map (\<lambda>r. (source r, chunk_index r)) (fst (search_with_context example_vs ''hello'' ''world'' 3))
     = [(''flox_intro.md'', 0), (''other.md'', 1)]
   \<and> index_calls (snd (search_with_context example_vs ''hello'' ''world'' 3))
     = [(3, Some [''flox_docs'', ''blog_post'']), (1, None)]
   \<and> index_calls (snd (search_with_context example_vs ''hello'' ''world'' 2))
     = [(2, Some [''flox_docs'', ''blog_post''])]"
proof -
  let ?q = "strip (''hello'' @ '' '' @ ''world'')"
  let ?s1 = "search example_vs ?q 3 (Some [''flox_docs'', ''blog_post''])"
  let ?s2 = "search example_vs ?q (3 - int (length (fst ?s1))) None"
  let ?t1 = "search example_vs ?q 2 (Some [''flox_docs'', ''blog_post''])"
  let ?t2 = "search example_vs ?q (2 - int (length (fst ?t1))) None"
  have q: "?q = ''hello world''" by code_simp
  have l1: "int (length (fst ?s1)) = 2" by code_simp
  have m1: "int (length (fst ?t1)) = 2" by code_simp
  have e1: "map (\<lambda>r. (source r, chunk_index r))
              (fst (search example_vs ''hello world'' 3 (Some [''flox_docs'', ''blog_post''])))
              = [(''flox_intro.md'', 0), (''other.md'', 1)]"
    by code_simp
  have e2: "map (\<lambda>r. (source r, chunk_index r)) (fst (search example_vs ''hello world'' 1 None))
              = [(''flox_intro.md'', 0)]"
    by code_simp
  have three: "search_with_context example_vs ''hello'' ''world'' 3 =
          (take (nat 3) (dedup_first (\<lambda>r. (source r, chunk_index r)) (fst ?s1 @ fst ?s2)),
           snd ?s1 @ snd ?s2)"
    using two_pass_retrieval [of example_vs "''hello''" "''world''" 3 "fst ?s1" "snd ?s1"
            "fst ?s2" "snd ?s2"] l1
    by simp
  have two: "search_with_context example_vs ''hello'' ''world'' 2 = (fst ?t1, snd ?t1)"
    using two_pass_retrieval [of example_vs "''hello''" "''world''" 2 "fst ?t1" "snd ?t1"
            "fst ?t2" "snd ?t2"] m1
    by simp
  have r3: "map (\<lambda>r. (source r, chunk_index r))
              (take (nat 3) (dedup_first (\<lambda>r. (source r, chunk_index r)) (fst ?s1 @ fst ?s2)))
              = [(''flox_intro.md'', 0), (''other.md'', 1)]"
    by code_simp
  have c3: "index_calls (snd ?s1 @ snd ?s2) = [(3, Some [''flox_docs'', ''blog_post'']), (1, None)]"
    by code_simp
  have c2: "index_calls (snd ?t1) = [(2, Some [''flox_docs'', ''blog_post''])]"
    by code_simp
  from three r3 have w3: "map (\<lambda>r. (source r, chunk_index r))
        (fst (search_with_context example_vs ''hello'' ''world'' 3))
        = [(''flox_intro.md'', 0), (''other.md'', 1)]"
    by simp
  from three c3 have w4: "index_calls (snd (search_with_context example_vs ''hello'' ''world'' 3))
        = [(3, Some [''flox_docs'', ''blog_post'']), (1, None)]"
    by simp
  from two c2 have w5: "index_calls (snd (search_with_context example_vs ''hello'' ''world'' 2))
        = [(2, Some [''flox_docs'', ''blog_post''])]"
    by simp
  from e1 e2 w3 w4 w5 show ?thesis by blast
qed

section \<open>Cleaning never lengthens a text\<close>

lemma strip_length: "length (strip s) \<le> length s"
proof -
  have "length (strip s) \<le> length (dropWhile isspace s)"
    unfolding strip_def using length_dropWhile_le [of isspace "rev (dropWhile isspace s)"]
    by simp
  also have "\<dots> \<le> length s" by (rule length_dropWhile_le)
  finally show ?thesis .
qed

lemma collapse_ws_length: "length (collapse_ws s) \<le> length s"
proof (induction s rule: collapse_ws.induct)
  case 1
  show ?case by simp
next
  case (2 c cs)
  show ?case
  proof (cases "isspace c")
    case True
    have "length (dropWhile isspace cs) \<le> length cs" by (rule length_dropWhile_le)
    with True "2.IH"(1) show ?thesis by simp
  next
    case False
    with "2.IH"(2) show ?thesis by simp
  qed
qed

lemma str_replace_length:
  "length new \<le> length old \<Longrightarrow> length (str_replace old new s) \<le> length s"
proof (induction old new s rule: str_replace.induct)
  case (1 old new)
  show ?case by simp
next
  case (2 old new c cs)
  show ?case
  proof (cases "old \<noteq> [] \<and> prefix old (c # cs)")
    case True
    then have "length old \<le> Suc (length cs)" using prefix_length_le by fastforce
    moreover from True have "1 \<le> length old" by (cases old) simp_all
    moreover from True "2.IH"(1) "2.prems"
    have "length (str_replace old new (drop (length old - 1) cs)) \<le> length cs - (length old - 1)"
      by simp
    ultimately show ?thesis using True "2.prems" by simp
  next
    case False
    with "2.IH"(2) "2.prems" show ?thesis by auto
  qed
qed

lemma sub_headers_length: "length (sub_headers s) \<le> length s"
proof (induction s rule: sub_headers.induct)
  case 1
  show ?case by simp
next
  case (2 c cs)
  let ?m = "is_hash c \<and> length (takeWhile is_hash cs) \<le> 5
            \<and> dropWhile isspace (dropWhile is_hash cs) \<noteq> dropWhile is_hash cs"
  show ?case
  proof (cases ?m)
    case True
    have "length (dropWhile isspace (dropWhile is_hash cs)) \<le> length (dropWhile is_hash cs)"
      by (rule length_dropWhile_le)
    also have "\<dots> \<le> length cs" by (rule length_dropWhile_le)
    finally have "length (dropWhile isspace (dropWhile is_hash cs)) \<le> length cs" .
    with True "2.IH"(1) show ?thesis by simp
  next
    case False
    with "2.IH"(2) show ?thesis by auto
  qed
qed

lemma find_close_lengths:
  "find_close d s = Some (inner, rest) \<Longrightarrow> length inner + length rest \<le> length s"
proof (induction s arbitrary: inner)
  case Nil
  then show ?case by (simp split: if_splits)
next
  case (Cons c cs)
  then show ?case by (fastforce split: if_splits option.splits)
qed

lemma sub_delim_length: "length (sub_delim d s) \<le> length s"
proof (induction d s rule: sub_delim.induct)
  case (1 d)
  show ?case by simp
next
  case (2 d c cs)
  show ?case
  proof (cases "d \<noteq> [] \<and> prefix d (c # cs)")
    case m: True
    show ?thesis
    proof (cases "find_close d (drop (length d - 1) cs)")
      case None
      with m "2.IH" show ?thesis by simp
    next
      case (Some p)
      obtain inner rest where p: "p = (inner, rest)" by (cases p)
      from Some p have fc: "find_close d (drop (length d - 1) cs) = Some (inner, rest)"
        by simp
      have "length inner + length rest \<le> length (drop (length d - 1) cs)"
        by (rule find_close_lengths [OF fc])
      then have "length inner + length rest \<le> length cs" by simp
      moreover from m Some p "2.IH" have "length (sub_delim d rest) \<le> length rest" by simp
      ultimately show ?thesis using m Some p by simp
    qed
  next
    case False
    with "2.IH" show ?thesis by auto
  qed
qed

lemma match_link_lengths:
  assumes "match_link cs = Some (txt, rest)"
  shows "length txt + length rest \<le> length cs"
proof -
  let ?r1 = "dropWhile not_rbracket cs"
  let ?r3 = "dropWhile not_rparen (drop 2 ?r1)"
  from assms have t: "txt = takeWhile not_rbracket cs" and r: "rest = tl ?r3"
    by (auto simp: match_link_def Let_def split: if_splits)
  have "length ?r3 \<le> length (drop 2 ?r1)" by (rule length_dropWhile_le)
  then have "length rest \<le> length ?r1" using r by simp
  moreover have "length (takeWhile not_rbracket cs) + length ?r1 = length cs"
    by (metis length_append takeWhile_dropWhile_id)
  ultimately show ?thesis using t by simp
qed

lemma sub_links_length: "length (sub_links s) \<le> length s"
proof (induction s rule: sub_links.induct)
  case 1
  show ?case by simp
next
  case (2 c cs)
  show ?case
  proof (cases "c = CHR ''[''")
    case m: True
    show ?thesis
    proof (cases "match_link cs")
      case None
      with m "2.IH" show ?thesis by simp
    next
      case (Some p)
      obtain label rest where p: "p = (label, rest)" by (cases p)
      from Some p have ml: "match_link cs = Some (label, rest)" by simp
      have "length label + length rest \<le> length cs"
        by (rule match_link_lengths [OF ml])
      moreover from m Some p "2.IH" have "length (sub_links rest) \<le> length rest" by simp
      ultimately show ?thesis using m Some p by simp
    qed
  next
    case False
    with "2.IH" show ?thesis by simp
  qed
qed

lemma clean_text_length: "length (clean_text text) \<le> length text"
proof (cases "text = []")
  case True
  then show ?thesis by (simp add: clean_text_def)
next
  case False
  let ?t1 = "collapse_ws text"
  let ?t2 = "str_replace ''&nbsp;'' '' '' ?t1"
  let ?t3 = "str_replace ''&amp;'' ''&'' ?t2"
  let ?t4 = "str_replace ''&lt;'' ''<'' ?t3"
  let ?t5 = "str_replace ''&gt;'' ''>'' ?t4"
  let ?t6 = "str_replace ''&quot;'' [CHR 0x22] ?t5"
  let ?t7 = "sub_headers ?t6"
  let ?t8 = "sub_delim ''**'' ?t7"
  let ?t9 = "sub_delim ''*'' ?t8"
  let ?t10 = "sub_delim ''`'' ?t9"
  let ?t11 = "sub_links ?t10"
  have "length (strip ?t11) \<le> length ?t11" by (rule strip_length)
  also have "\<dots> \<le> length ?t10" by (rule sub_links_length)
  also have "\<dots> \<le> length ?t9" by (rule sub_delim_length)
  also have "\<dots> \<le> length ?t8" by (rule sub_delim_length)
  also have "\<dots> \<le> length ?t7" by (rule sub_delim_length)
  also have "\<dots> \<le> length ?t6" by (rule sub_headers_length)
  also have "\<dots> \<le> length ?t5" by (rule str_replace_length) simp
  also have "\<dots> \<le> length ?t4" by (rule str_replace_length) simp
  also have "\<dots> \<le> length ?t3" by (rule str_replace_length) simp
  also have "\<dots> \<le> length ?t2" by (rule str_replace_length) simp
  also have "\<dots> \<le> length ?t1" by (rule str_replace_length) simp
  also have "\<dots> \<le> length text" by (rule collapse_ws_length)
  finally have "length (strip ?t11) \<le> length text" .
  with False show ?thesis by (simp add: clean_text_def Let_def)
qed

section \<open>Joining and trimming\<close>

lemma join_Cons: "ps \<noteq> [] \<Longrightarrow> join sep (p # ps) = p @ sep @ join sep ps"
  by (cases ps) simp_all

lemma join_merge: "join sep ((a @ sep @ b) # rest) = join sep (a # b # rest)"
  by (cases rest) simp_all

lemma length_join_ge_hd: "length p \<le> length (join sep (p # ps))"
  by (cases ps) simp_all

lemma length_join_tl: "length (join sep ps) \<le> length (join sep (p # ps))"
  by (cases ps) simp_all

lemma join_pieces_shrink:
  "length (join sep (filter (\<lambda>s. s \<noteq> []) (map strip xs))) \<le> length (join sep xs)"
proof (induction xs)
  case Nil
  show ?case by simp
next
  case (Cons x xs)
  let ?g = "\<lambda>ys. filter (\<lambda>s. s \<noteq> []) (map strip ys)"
  show ?case
  proof (cases "strip x = []")
    case True
    then have "length (join sep (?g (x # xs))) = length (join sep (?g xs))" by simp
    also have "\<dots> \<le> length (join sep xs)" by (rule Cons.IH)
    also have "\<dots> \<le> length (join sep (x # xs))" by (rule length_join_tl)
    finally show ?thesis .
  next
    case False
    show ?thesis
    proof (cases "?g xs = []")
      case True
      with False have "join sep (?g (x # xs)) = strip x" by simp
      then have "length (join sep (?g (x # xs))) \<le> length x" by (simp add: strip_length)
      also have "\<dots> \<le> length (join sep (x # xs))" by (rule length_join_ge_hd)
      finally show ?thesis .
    next
      case nonempty: False
      then have xs: "xs \<noteq> []" by auto
      from False nonempty have
        "join sep (?g (x # xs)) = strip x @ sep @ join sep (?g xs)"
        by (simp add: join_Cons)
      then have "length (join sep (?g (x # xs)))
                   = length (strip x) + length sep + length (join sep (?g xs))"
        by simp
      also have "\<dots> \<le> length x + length sep + length (join sep xs)"
        using strip_length [of x] Cons.IH by simp
      also have "\<dots> = length (join sep (x # xs))" using xs by (simp add: join_Cons)
      finally show ?thesis .
    qed
  qed
qed

lemma re_split_acc_not_Nil: "re_split_acc cur s \<noteq> []"
  by (induction s arbitrary: cur) simp_all

lemma re_split_acc_length:
  "length (join '' '' (re_split_acc cur s)) \<le> length cur + length s"
proof (induction cur s rule: re_split_acc.induct)
  case (1 cur)
  show ?case by simp
next
  case (2 cur c cs)
  show ?case
  proof (cases "is_punct c")
    case True
    let ?rest = "re_split_acc [] (dropWhile is_punct cs)"
    have "length (join '' '' ?rest) \<le> length (dropWhile is_punct cs)"
      using True "2.IH"(1) by simp
    also have "\<dots> \<le> length cs" by (rule length_dropWhile_le)
    finally have "length (join '' '' ?rest) \<le> length cs" .
    moreover have "join '' '' (cur # ?rest) = cur @ '' '' @ join '' '' ?rest"
      by (rule join_Cons) (rule re_split_acc_not_Nil)
    ultimately show ?thesis using True by simp
  next
    case False
    with "2.IH"(2) show ?thesis by simp
  qed
qed

lemma sentence_pieces_length:
  "length (join '' '' (sentence_pieces s)) \<le> length s"
proof -
  have "length (join '' '' (sentence_pieces s))
          \<le> length (join '' '' (re_split_punct s))"
    unfolding sentence_pieces_def by (rule join_pieces_shrink)
  also have "\<dots> \<le> length s"
    unfolding re_split_punct_def using re_split_acc_length [of "[]" s] by simp
  finally show ?thesis .
qed

lemma strip_trimmed: "strip x \<noteq> [] \<Longrightarrow> trimmed (strip x)"
proof -
  assume ne: "strip x \<noteq> []"
  let ?d = "dropWhile isspace x"
  let ?e = "dropWhile isspace (rev ?d)"
  from ne have e: "?e \<noteq> []" by (simp add: strip_def)
  have d: "?d \<noteq> []"
  proof
    assume z: "?d = []"
    have "?e = []" unfolding z by simp
    with e show False ..
  qed
  have "last (strip x) = hd ?e" using e by (simp add: strip_def last_rev)
  moreover have "\<not> isspace (hd ?e)" using e by (rule hd_dropWhile)
  moreover have "hd (strip x) = last ?e" using e by (simp add: strip_def hd_rev)
  moreover have "last ?e = last (rev ?d)"
    using e by (metis takeWhile_dropWhile_id last_appendR)
  moreover have "last (rev ?d) = hd ?d" using d by (simp add: last_rev)
  moreover have "\<not> isspace (hd ?d)" using d by (rule hd_dropWhile)
  ultimately show ?thesis using ne by (simp add: trimmed_def)
qed

lemma strip_of_trimmed: "trimmed s \<Longrightarrow> strip s = s"
proof -
  assume t: "trimmed s"
  then obtain c cs where s: "s = c # cs" by (cases s) (auto simp: trimmed_def)
  with t have "dropWhile isspace s = s" by (simp add: trimmed_def)
  moreover from t have "rev s \<noteq> []" "\<not> isspace (hd (rev s))"
    by (simp_all add: trimmed_def hd_rev)
  then have "dropWhile isspace (rev s) = rev s" by (cases "rev s") simp_all
  ultimately show ?thesis by (simp add: strip_def)
qed

lemma join_trimmed:
  "ps \<noteq> [] \<Longrightarrow> \<forall>p\<in>set ps. trimmed p \<Longrightarrow> trimmed (join '' '' ps)"
proof (induction ps)
  case Nil
  then show ?case by simp
next
  case (Cons p ps)
  from Cons.prems have p: "trimmed p" by simp
  show ?case
  proof (cases "ps = []")
    case True
    with p show ?thesis by simp
  next
    case False
    with Cons.IH Cons.prems have r: "trimmed (join '' '' ps)" by simp
    from False have "join '' '' (p # ps) = p @ '' '' @ join '' '' ps" by (rule join_Cons)
    with p r show ?thesis by (simp add: trimmed_def)
  qed
qed

lemma sentence_pieces_trimmed: "\<forall>p\<in>set (sentence_pieces s). trimmed p"
  by (auto simp: sentence_pieces_def intro: strip_trimmed)

lemma clean_text_strip: "strip (clean_text s) = clean_text s"
proof (cases "clean_text s = []")
  case True
  then show ?thesis by (simp add: strip_def)
next
  case False
  then have "s \<noteq> []" by (auto simp: clean_text_def)
  then obtain u where u: "clean_text s = strip u" by (simp add: clean_text_def Let_def)
  with False have "trimmed (strip u)" using strip_trimmed by simp
  then show ?thesis unfolding u by (rule strip_of_trimmed)
qed

section \<open>Chunking a text that fits\<close>

lemma chunk_loop_no_overflow:
  assumes "int (length (join '' '' ((if cur = [] then [] else [cur])
                                      @ filter (\<lambda>s. s \<noteq> []) (map strip ss)))) \<le> ms"
  shows "chunk_loop ms ov ss chunks cur =
           (chunks, join '' '' ((if cur = [] then [] else [cur])
                                  @ filter (\<lambda>s. s \<noteq> []) (map strip ss)))"
  using assms
proof (induction ss arbitrary: cur)
  case Nil
  then show ?case by simp
next
  case (Cons s ss)
  let ?ps = "filter (\<lambda>s. s \<noteq> []) (map strip ss)"
  show ?case
  proof (cases "strip s = []")
    case True
    with Cons.prems Cons.IH [of cur] show ?thesis by simp
  next
    case t: False
    show ?thesis
    proof (cases "cur = []")
      case True
      from Cons.prems True t have "int (length (join '' '' (strip s # ?ps))) \<le> ms" by simp
      then have "chunk_loop ms ov ss chunks (strip s) = (chunks, join '' '' (strip s # ?ps))"
        using Cons.IH [of "strip s"] t by simp
      with True t show ?thesis by (simp add: Let_def)
    next
      case False
      let ?cur' = "cur @ '' '' @ strip s"
      have m: "join '' '' (?cur' # ?ps) = join '' '' (cur # strip s # ?ps)"
        by (rule join_merge)
      from Cons.prems False t have le: "int (length (join '' '' (cur # strip s # ?ps))) \<le> ms"
        by simp
      have "length ?cur' \<le> length (join '' '' (?cur' # ?ps))" by (rule length_join_ge_hd)
      with le m have fits: "int (length cur) + int (length (strip s)) + 1 \<le> ms" by simp
      from le m have "chunk_loop ms ov ss chunks ?cur' = (chunks, join '' '' (?cur' # ?ps))"
        using Cons.IH [of ?cur'] by simp
      with False t fits m show ?thesis by (simp add: Let_def)
    qed
  qed
qed

lemma re_split_no_punct: "list_all (\<lambda>c. \<not> is_punct c) s \<Longrightarrow> re_split_acc cur s = [cur @ s]"
  by (induction s arbitrary: cur) simp_all

text \<open>
  C4, as stated, fails. A text within the size bound whose cleaned form has sentence
  punctuation comes back as one chunk without that punctuation, which is not the cleaned
  text; the empty text comes back as no chunk at all.
\<close>

theorem single_chunk_counterexample:
  "int (length ''Hi. Yo'') \<le> 500
   \<and> clean_text ''Hi. Yo'' = ''Hi. Yo''
   \<and> chunk_text example_es ''Hi. Yo'' (Some 500) = [''Hi Yo'']
   \<and> chunk_text example_es [] (Some 500) = []"
  by code_simp

text \<open>
  C4, amended. For every text whose length is at most \<open>max_size\<close>, \<open>chunk_text\<close> returns at
  most one chunk: none when the cleaned text has no sentence piece, as for the empty
  text, and otherwise the sentence pieces of the cleaned text joined by single spaces. When the cleaned text is non-empty and has none
  of \<open>.\<close>, \<open>!\<close>, \<open>?\<close>, that one chunk is the cleaned text.
\<close>

theorem single_chunk:
  assumes "int (length s) \<le> max_size"
  shows "chunk_text es s (Some max_size) =
           (if sentence_pieces (clean_text s) = [] then []
            else [join '' '' (sentence_pieces (clean_text s))])
         \<and> (clean_text s \<noteq> [] \<and> list_all (\<lambda>c. \<not> is_punct c) (clean_text s) \<longrightarrow>
               chunk_text es s (Some max_size) = [clean_text s])"
proof -
  let ?ps = "sentence_pieces (clean_text s)"
  have "length (join '' '' ?ps) \<le> length (clean_text s)" by (rule sentence_pieces_length)
  also have "\<dots> \<le> length s" by (rule clean_text_length)
  finally have "int (length (join '' '' ?ps)) \<le> max_size" using assms by simp
  then have "int (length (join '' '' ((if ([]::string) = [] then [] else [[]])
               @ filter (\<lambda>s. s \<noteq> []) (map strip (re_split_punct (clean_text s))))))
             \<le> max_size"
    by (simp add: sentence_pieces_def)
  then have loop: "chunk_loop max_size (chunk_overlap es) (re_split_punct (clean_text s)) [] []
                     = ([], join '' '' ?ps)"
    using chunk_loop_no_overflow
            [of "[]" "re_split_punct (clean_text s)" max_size "chunk_overlap es" "[]"]
    by (simp add: sentence_pieces_def)
  have fin: "strip (join '' '' ?ps) = join '' '' ?ps \<and> (join '' '' ?ps = [] \<longleftrightarrow> ?ps = [])"
  proof (cases "?ps = []")
    case True
    then show ?thesis by (simp add: strip_def)
  next
    case False
    then have "trimmed (join '' '' ?ps)"
      using sentence_pieces_trimmed by (rule join_trimmed)
    then show ?thesis using False strip_of_trimmed by (auto simp: trimmed_def)
  qed
  have general: "chunk_text es s (Some max_size) =
           (if ?ps = [] then [] else [join '' '' ?ps])"
    using loop fin by (simp add: chunk_text_def Let_def)
  have plain: "chunk_text es s (Some max_size) = [clean_text s]"
    if ne: "clean_text s \<noteq> []" and np: "list_all (\<lambda>c. \<not> is_punct c) (clean_text s)"
  proof -
    from np have "re_split_punct (clean_text s) = [clean_text s]"
      unfolding re_split_punct_def using re_split_no_punct [of "clean_text s" "[]"] by simp
    with ne have "?ps = [clean_text s]"
      by (simp add: sentence_pieces_def clean_text_strip)
    with general show ?thesis by simp
  qed
  from general plain show ?thesis by blast
qed

theorem single_chunk_witness:
  "int (length ''# Flox **makes** environments'') \<le> 500
   \<and> clean_text ''# Flox **makes** environments'' = ''Flox makes environments''
   \<and> chunk_text example_es ''# Flox **makes** environments'' (Some 500)
        = [''Flox makes environments'']
   \<and> int (length ''Hi. Yo'') \<le> 6
   \<and> chunk_text example_es ''Hi. Yo'' (Some 6) = [join '' '' [''Hi'', ''Yo'']]"
proof -
  have l1: "int (length ''# Flox **makes** environments'') \<le> 500" by simp
  have c1: "clean_text ''# Flox **makes** environments'' = ''Flox makes environments''"
    by code_simp
  have n1: "clean_text ''# Flox **makes** environments'' \<noteq> []" by code_simp
  have p1: "list_all (\<lambda>c. \<not> is_punct c) (clean_text ''# Flox **makes** environments'')"
    by code_simp
  from single_chunk [OF l1, of example_es] n1 p1
  have "chunk_text example_es ''# Flox **makes** environments'' (Some 500)
          = [clean_text ''# Flox **makes** environments'']"
    by blast
  then have w1: "chunk_text example_es ''# Flox **makes** environments'' (Some 500)
                   = [''Flox makes environments'']"
    unfolding c1 .
  have l2: "int (length ''Hi. Yo'') \<le> 6" by simp
  have p2: "sentence_pieces (clean_text ''Hi. Yo'') = [''Hi'', ''Yo'']" by code_simp
  from single_chunk [OF l2, of example_es]
  have "chunk_text example_es ''Hi. Yo'' (Some 6) =
           (if sentence_pieces (clean_text ''Hi. Yo'') = [] then []
            else [join '' '' (sentence_pieces (clean_text ''Hi. Yo''))])"
    by blast
  then have w2: "chunk_text example_es ''Hi. Yo'' (Some 6) = [join '' '' [''Hi'', ''Yo'']]"
    unfolding p2 by simp
  from l1 c1 w1 l2 w2 show ?thesis by blast
qed

end
